theory Spec2Isabelle
  imports Main "HOL-Library.AList" "HOL-Library.Product_Lexorder" "HOL-Library.Multiset"
begin

section \<open>Card model (cards.py)\<close>

text \<open>
  The enumerations \<open>Face\<close> and \<open>Suit\<close> of cards.py. \<open>face_value\<close> is the
  \<open>.value\<close> attribute of a \<open>Face\<close> member, \<open>Face_members\<close> the members in
  their order of definition (what iterating over the class \<open>Face\<close> yields).
\<close>

datatype Face = TWO | THREE | FOUR | FIVE | SIX | SEVEN | EIGHT | NINE | TEN
  | JACK | QUEEN | KING | ACE

datatype Suit = SPADES | HEARTS | CLOVERS | DIAMONDS

text \<open>The exceptions the modelled code can raise.\<close>

datatype error = ValueError | IndexError | KeyError

fun face_value :: "Face \<Rightarrow> int" where
  "face_value TWO = 2"
| "face_value THREE = 3"
| "face_value FOUR = 4"
| "face_value FIVE = 5"
| "face_value SIX = 6"
| "face_value SEVEN = 7"
| "face_value EIGHT = 8"
| "face_value NINE = 9"
| "face_value TEN = 10"
| "face_value JACK = 11"
| "face_value QUEEN = 12"
| "face_value KING = 13"
| "face_value ACE = 14"

definition Face_members :: "Face list" where
  "Face_members =
     [TWO, THREE, FOUR, FIVE, SIX, SEVEN, EIGHT, NINE, TEN, JACK, QUEEN, KING, ACE]"

text \<open>
  \<open>Face(v)\<close>: the member whose value is \<open>v\<close>; Python raises ValueError when there
  is none.
\<close>

definition Face_call :: "int \<Rightarrow> error + Face" where
  "Face_call v =
     (case find (\<lambda>f. face_value f = v) Face_members of
        None \<Rightarrow> Inl ValueError
      | Some f \<Rightarrow> Inr f)"

text \<open>\<open>max(...)\<close> of Python: it raises ValueError on an empty argument.\<close>

definition py_max :: "('a::linorder) list \<Rightarrow> error + 'a" where
  "py_max xs = (case xs of [] \<Rightarrow> Inl ValueError | y # ys \<Rightarrow> Inr (fold max ys y))"

text \<open>
  The module constants \<open>MIN_VALUE\<close> and \<open>MAX_VALUE\<close>. They are computed once, at
  import, over the thirteen members, so the \<open>min\<close> and \<open>max\<close> cannot raise there.
\<close>

definition MIN_VALUE :: int where
  "MIN_VALUE = fold min (map face_value (tl Face_members)) (face_value (hd Face_members))"

definition MAX_VALUE :: int where
  "MAX_VALUE = fold max (map face_value (tl Face_members)) (face_value (hd Face_members))"

text \<open>The class \<open>Card\<close>: a face and a suit; \<open>card_value\<close> is its property \<open>value\<close>.\<close>

record Card =
  face :: Face
  suit :: Suit

definition card_value :: "Card \<Rightarrow> int" where
  "card_value c = face_value (face c)"

text \<open>
  Sequencing of computations that may raise: the first exception is the result.
\<close>

fun bind_res :: "error + 'a \<Rightarrow> ('a \<Rightarrow> error + 'b) \<Rightarrow> error + 'b" where
  "bind_res (Inl e) k = Inl e"
| "bind_res (Inr x) k = k x"

text \<open>
  \<open>get_next_face\<close> and \<open>get_previous_face\<close>: the \<open>try\<close> body, and the handler
  of ValueError, which itself calls \<open>Face(...)\<close>.
\<close>

definition get_next_face :: "Face \<Rightarrow> error + Face" where
  "get_next_face fc =
     (case Face_call (face_value fc + 1) of
        Inr g \<Rightarrow> Inr g
      | Inl ValueError \<Rightarrow> Face_call MIN_VALUE
      | Inl e \<Rightarrow> Inl e)"

definition get_previous_face :: "Face \<Rightarrow> error + Face" where
  "get_previous_face fc =
     (case Face_call (face_value fc - 1) of
        Inr g \<Rightarrow> Inr g
      | Inl ValueError \<Rightarrow> Face_call MAX_VALUE
      | Inl e \<Rightarrow> Inl e)"

section \<open>Hand analysis (cardUtils.py)\<close>

text \<open>
  \<open>is_straight_starter_greater\<close> and \<open>is_straight_starter_lesser\<close>, branch by
  branch.
\<close>

definition is_straight_starter_greater :: "Face \<Rightarrow> Face \<Rightarrow> bool" where
  "is_straight_starter_greater starter1 starter2 =
     (if starter1 = starter2 then False
      else if starter1 \<noteq> ACE \<and> starter2 \<noteq> ACE then face_value starter1 > face_value starter2
      else starter1 \<noteq> ACE)"

definition is_straight_starter_lesser :: "Face \<Rightarrow> Face \<Rightarrow> bool" where
  "is_straight_starter_lesser starter1 starter2 =
     (if starter1 = starter2 then False
      else if starter1 \<noteq> ACE \<and> starter2 \<noteq> ACE then face_value starter1 < face_value starter2
      else starter1 = ACE)"

text \<open>
  Python containers. A \<open>dict\<close> (and a \<open>Counter\<close>) is an association list in
  insertion order: \<open>AList.update k v d\<close> is \<open>d[k] = v\<close> (a present key keeps its
  place, a new key goes last), \<open>dict_getitem\<close> is \<open>d[k]\<close>, which raises KeyError on a
  missing key. A \<open>set\<close> is a list without duplicates; Python leaves the iteration order
  of a set unspecified, the model iterates in the order of the list.
\<close>

definition dict_getitem :: "('k \<times> 'v) list \<Rightarrow> 'k \<Rightarrow> error + 'v" where
  "dict_getitem d k = (case map_of d k of None \<Rightarrow> Inl KeyError | Some v \<Rightarrow> Inr v)"

text \<open>\<open>c[k]\<close> of a Counter: a missing key counts 0.\<close>

definition counter_get :: "('k \<times> nat) list \<Rightarrow> 'k \<Rightarrow> nat" where
  "counter_get c k = (case map_of c k of None \<Rightarrow> 0 | Some n \<Rightarrow> n)"

text \<open>\<open>c.update(iterable)\<close> of a Counter: every element read adds one to its count.\<close>

definition counter_update :: "'k list \<Rightarrow> ('k \<times> nat) list \<Rightarrow> ('k \<times> nat) list" where
  "counter_update xs c = fold (\<lambda>x d. AList.update x (counter_get d x + 1) d) xs c"

text \<open>
  \<open>sorted(xs, key=key, reverse=reverse)\<close>: a stable sort; with \<open>reverse=True\<close>
  the order is descending and elements with equal keys keep their original order.
\<close>

definition py_sorted :: "('a \<Rightarrow> 'b::linorder) \<Rightarrow> bool \<Rightarrow> 'a list \<Rightarrow> 'a list" where
  "py_sorted key reverse xs =
     (if reverse then rev (sort_key key (rev xs)) else sort_key key xs)"

text \<open>\<open>xs[0]\<close> and \<open>xs[-1]\<close>: IndexError on the empty list.\<close>

definition py_first :: "'a list \<Rightarrow> error + 'a" where
  "py_first xs = (case xs of [] \<Rightarrow> Inl IndexError | y # ys \<Rightarrow> Inr y)"

definition py_last :: "'a list \<Rightarrow> error + 'a" where
  "py_last xs = (case xs of [] \<Rightarrow> Inl IndexError | y # ys \<Rightarrow> Inr (last xs))"

text \<open>Applying a function that may raise to each element in turn.\<close>

fun map_res :: "('a \<Rightarrow> error + 'b) \<Rightarrow> 'a list \<Rightarrow> error + 'b list" where
  "map_res g [] = Inr []"
| "map_res g (x # xs) = bind_res (g x) (\<lambda>y. bind_res (map_res g xs) (\<lambda>ys. Inr (y # ys)))"

text \<open>
  The class \<open>Hand\<close> is a \<open>UserList\<close> of cards: a list of cards. \<open>Hand(cards)\<close>
  copies the list.
\<close>

definition get_faces :: "Card list \<Rightarrow> Face list" where
  "get_faces hand = map face hand"

definition get_suits :: "Card list \<Rightarrow> Suit list" where
  "get_suits hand = map suit hand"

text \<open>
  \<open>get_groups_by_face\<close> and \<open>get_groups_by_suit\<close>: the dict comprehension gives
  every key an empty list, then the loop appends each card to the list of its key.
  \<open>groups_loop\<close> is the loop of both, with the attribute read as a parameter.
\<close>

fun groups_loop ::
  "(Card \<Rightarrow> 'k) \<Rightarrow> Card list \<Rightarrow> ('k \<times> Card list) list \<Rightarrow> error + ('k \<times> Card list) list" where
  "groups_loop attr [] groups = Inr groups"
| "groups_loop attr (c # cards) groups =
     bind_res (dict_getitem groups (attr c))
       (\<lambda>g. groups_loop attr cards (AList.update (attr c) (g @ [c]) groups))"

definition get_groups_by_face :: "Card list \<Rightarrow> error + (Face \<times> Card list) list" where
  "get_groups_by_face hand =
     groups_loop face hand (fold (\<lambda>k d. AList.update k [] d) (get_faces hand) [])"

definition get_groups_by_suit :: "Card list \<Rightarrow> error + (Suit \<times> Card list) list" where
  "get_groups_by_suit hand =
     groups_loop suit hand (fold (\<lambda>k d. AList.update k [] d) (get_suits hand) [])"

text \<open>\<open>sorted_starters\<close> and \<open>get_max_straight_starter\<close>.\<close>

definition starter_key :: "Face \<Rightarrow> int" where
  "starter_key starter = (if starter \<noteq> ACE then face_value starter else MIN_VALUE - 1)"

definition sorted_starters :: "Face list \<Rightarrow> bool \<Rightarrow> Face list" where
  "sorted_starters starters reverse = py_sorted starter_key reverse starters"

definition get_max_straight_starter :: "Face list \<Rightarrow> error + Face" where
  "get_max_straight_starter starters = py_last (sorted_starters starters False)"

text \<open>
  \<open>get_starters_of_sequences_including_face\<close>. The argument \<open>invalid\<close> is optional:
  \<open>invalid or set()\<close> is the empty set for \<open>None\<close>. The loop runs
  \<open>sequence_length\<close> times, or stops at a starter it has already collected.
\<close>

definition or_empty :: "'a list option \<Rightarrow> 'a list" where
  "or_empty xs = (case xs of None \<Rightarrow> [] | Some ys \<Rightarrow> ys)"

fun starters_loop :: "nat \<Rightarrow> Face \<Rightarrow> Face list \<Rightarrow> Face list \<Rightarrow> error + Face list" where
  "starters_loop 0 starter invalid starters = Inr starters"
| "starters_loop (Suc n) starter invalid starters =
     (if starter \<in> set starters then Inr starters
      else bind_res (get_previous_face starter)
             (\<lambda>p. starters_loop n p invalid
                    (if starter \<notin> set invalid then starters @ [starter] else starters)))"

definition get_starters_of_sequences_including_face ::
  "Face \<Rightarrow> nat \<Rightarrow> Face list option \<Rightarrow> error + Face list" where
  "get_starters_of_sequences_including_face fc sequence_length invalid =
     starters_loop sequence_length fc (or_empty invalid) []"

text \<open>
  \<open>get_starters_of_sequences_including_faces\<close>: a Counter, updated with the starters
  of every face of \<open>set(faces)\<close>.
\<close>

fun faces_loop ::
  "Face list \<Rightarrow> nat \<Rightarrow> Face list option \<Rightarrow> (Face \<times> nat) list \<Rightarrow> error + (Face \<times> nat) list" where
  "faces_loop [] sequence_length invalid starters = Inr starters"
| "faces_loop (fc # fcs) sequence_length invalid starters =
     bind_res (get_starters_of_sequences_including_face fc sequence_length invalid)
       (\<lambda>s. faces_loop fcs sequence_length invalid (counter_update s starters))"

definition get_starters_of_sequences_including_faces ::
  "Face list \<Rightarrow> nat \<Rightarrow> Face list option \<Rightarrow> error + (Face \<times> nat) list" where
  "get_starters_of_sequences_including_faces faces sequence_length invalid =
     faces_loop (remdups faces) sequence_length invalid []"

text \<open>
  \<open>get_most_frequent_starter_of_sequences_including_faces\<close>: \<open>max\<close> raises on an
  empty Counter, and \<open>get_max_straight_starter\<close> reads the last element of the sorted
  list.
\<close>

definition get_most_frequent_starter_of_sequences_including_faces ::
  "Face list \<Rightarrow> nat \<Rightarrow> Face list option \<Rightarrow> error + Face" where
  "get_most_frequent_starter_of_sequences_including_faces faces sequence_length invalid =
     bind_res (get_starters_of_sequences_including_faces faces sequence_length invalid)
       (\<lambda>starters. bind_res (py_max (map snd starters))
         (\<lambda>max_frequency.
            get_max_straight_starter
              (filter (\<lambda>fc. counter_get starters fc = max_frequency) (map fst starters))))"

text \<open>
  \<open>get_group_items_by_size_and_value\<close>. The key of an item is the pair of the length
  of its group and the value of the first card of the group sorted descending; cards
  compare by value alone. Python computes the keys of all items first, then sorts; pairs
  compare lexicographically.
\<close>

definition group_key :: "'k \<times> Card list \<Rightarrow> error + (nat \<times> int)" where
  "group_key tup =
     bind_res (py_first (py_sorted card_value True (snd tup)))
       (\<lambda>c. Inr (length (snd tup), card_value c))"

definition get_group_items_by_size_and_value ::
  "('k \<times> Card list) list \<Rightarrow> bool \<Rightarrow> error + ('k \<times> Card list) list" where
  "get_group_items_by_size_and_value face_group reverse =
     bind_res (map_res group_key face_group)
       (\<lambda>keys. Inr (map snd (py_sorted fst reverse (zip keys face_group))))"

text \<open>\<open>get_max_face_frequency\<close> and \<open>get_max_suit_frequency\<close>.\<close>

definition get_max_face_frequency :: "Card list \<Rightarrow> error + nat" where
  "get_max_face_frequency cards =
     bind_res (get_groups_by_face cards) (\<lambda>groups. py_max (map (\<lambda>kv. length (snd kv)) groups))"

definition get_max_suit_frequency :: "Card list \<Rightarrow> error + nat" where
  "get_max_suit_frequency cards =
     bind_res (get_groups_by_suit cards) (\<lambda>groups. py_max (map (\<lambda>kv. length (snd kv)) groups))"

section \<open>Rank catalog (ranks.py)\<close>

text \<open>
  A validator takes the cards and returns a truth value, or raises. The class \<open>Rank\<close>
  has a name, a value and its validators; \<open>Rank_init\<close> is its constructor, with
  \<open>validators or []\<close> for the optional argument. Ranks compare by value alone
  (\<open>__eq__\<close>, \<open>__gt__\<close>, \<open>__lt__\<close>).
\<close>

type_synonym RankValidator = "Card list \<Rightarrow> error + bool"

record Rank =
  rank_name :: string
  rank_value :: int
  validators :: "RankValidator list"

definition Rank_init :: "string \<Rightarrow> int \<Rightarrow> RankValidator list option \<Rightarrow> Rank" where
  "Rank_init n v vs = \<lparr>rank_name = n, rank_value = v, validators = or_empty vs\<rparr>"

definition rank_eq :: "Rank \<Rightarrow> Rank \<Rightarrow> bool" where
  "rank_eq r1 r2 = (rank_value r1 = rank_value r2)"

definition rank_gt :: "Rank \<Rightarrow> Rank \<Rightarrow> bool" where
  "rank_gt r1 r2 = (rank_value r1 > rank_value r2)"

definition rank_lt :: "Rank \<Rightarrow> Rank \<Rightarrow> bool" where
  "rank_lt r1 r2 = (rank_value r1 < rank_value r2)"

text \<open>\<open>Rank.is_rank\<close>: the first validator that fails, or raises, ends the loop.\<close>

fun is_rank_loop :: "RankValidator list \<Rightarrow> Card list \<Rightarrow> error + bool" where
  "is_rank_loop [] cards = Inr True"
| "is_rank_loop (validator # vs) cards =
     bind_res (validator cards) (\<lambda>ok. if \<not> ok then Inr False else is_rank_loop vs cards)"

definition is_rank :: "Rank \<Rightarrow> Card list \<Rightarrow> error + bool" where
  "is_rank r cards = is_rank_loop (validators r) cards"

definition Rank_none :: Rank where
  "Rank_none = Rank_init ''None'' 0 None"

text \<open>\<open>has_required_group\<close>: counts the Counter's values equal to the group size.\<close>

definition has_required_group :: "'a list \<Rightarrow> nat \<Rightarrow> nat \<Rightarrow> bool" where
  "has_required_group attributes group_size num_of_groups =
     (let attribute_frequencies = counter_update attributes [];
          num_of_valid_groups =
            fold (\<lambda>frequency n. if frequency = group_size then n + 1 else n)
              (map snd attribute_frequencies) (0::nat)
      in num_of_valid_groups = num_of_groups)"

text \<open>The factory functions of the validators.\<close>

definition create_length_validator :: "nat \<Rightarrow> RankValidator" where
  "create_length_validator required_length = (\<lambda>cards. Inr (length cards = required_length))"

fun sequence_loop :: "nat \<Rightarrow> Face \<Rightarrow> Face list \<Rightarrow> error + bool" where
  "sequence_loop 0 starter faces = Inr True"
| "sequence_loop (Suc n) starter faces =
     (if starter \<notin> set faces then Inr False
      else bind_res (get_next_face starter) (\<lambda>nx. sequence_loop n nx faces))"

definition create_sequence_validator :: "Face list option \<Rightarrow> RankValidator" where
  "create_sequence_validator invalid_starters =
     (\<lambda>cards.
        let card_group = cards;
            sequence_length = length card_group;
            faces = get_faces card_group
        in bind_res
             (get_most_frequent_starter_of_sequences_including_faces faces sequence_length
                (Some (or_empty invalid_starters)))
             (\<lambda>starter. sequence_loop sequence_length starter faces))"

definition create_face_validator :: "Face list \<Rightarrow> RankValidator" where
  "create_face_validator required_faces =
     (\<lambda>cards. Inr (list_all (\<lambda>fc. fc \<in> set (get_faces cards)) required_faces))"

definition create_suit_validator :: "Suit list \<Rightarrow> RankValidator" where
  "create_suit_validator required_suits =
     (\<lambda>cards. Inr (list_all (\<lambda>s. s \<in> set (get_suits cards)) required_suits))"

definition create_face_frequency_validator :: "(nat \<times> nat) list \<Rightarrow> RankValidator" where
  "create_face_frequency_validator required_frequencies =
     (\<lambda>cards. Inr (list_all (\<lambda>(group_size, required_num_of_group).
                      has_required_group (get_faces cards) group_size required_num_of_group)
                    required_frequencies))"

definition create_suit_frequency_validator :: "(nat \<times> nat) list \<Rightarrow> RankValidator" where
  "create_suit_frequency_validator required_frequencies =
     (\<lambda>cards. Inr (list_all (\<lambda>(group_size, required_num_of_group).
                      has_required_group (get_suits cards) group_size required_num_of_group)
                    required_frequencies))"

text \<open>The module constants and the ten ranks.\<close>

definition REQUIRED_LENGTH :: nat where
  "REQUIRED_LENGTH = 5"

definition INVALID_STRAIGHT_STARTERS :: "Face list" where
  "INVALID_STRAIGHT_STARTERS = [JACK, QUEEN, KING]"

definition ROYAL_FACES :: "Face list" where
  "ROYAL_FACES = [TEN, JACK, QUEEN, KING, ACE]"

definition NULL_RANK :: Rank where
  "NULL_RANK = Rank_init ''None'' 0 None"

definition HIGH :: Rank where
  "HIGH = Rank_init ''High Card'' 1 (Some [create_length_validator REQUIRED_LENGTH])"

definition PAIR :: Rank where
  "PAIR = Rank_init ''Pair'' 2
     (Some [create_length_validator REQUIRED_LENGTH,
            create_face_frequency_validator [(2, 1)]])"

definition TWO_PAIR :: Rank where
  "TWO_PAIR = Rank_init ''Two Pair'' 3
     (Some [create_length_validator REQUIRED_LENGTH,
            create_face_frequency_validator [(2, 2)]])"

definition THREE_OF_A_KIND :: Rank where
  "THREE_OF_A_KIND = Rank_init ''Three of a Kind'' 4
     (Some [create_length_validator REQUIRED_LENGTH,
            create_face_frequency_validator [(3, 1)]])"

definition STRAIGHT :: Rank where
  "STRAIGHT = Rank_init ''Straight'' 5
     (Some [create_length_validator REQUIRED_LENGTH,
            create_sequence_validator (Some INVALID_STRAIGHT_STARTERS)])"

definition FLUSH :: Rank where
  "FLUSH = Rank_init ''Flush'' 6
     (Some [create_length_validator REQUIRED_LENGTH,
            create_suit_frequency_validator [(REQUIRED_LENGTH, 1)]])"

definition FULL_HOUSE :: Rank where
  "FULL_HOUSE = Rank_init ''Full House'' 7
     (Some [create_length_validator REQUIRED_LENGTH,
            create_face_frequency_validator [(3, 1), (2, 1)]])"

definition FOUR_OF_A_KIND :: Rank where
  "FOUR_OF_A_KIND = Rank_init ''Four of a Kind'' 8
     (Some [create_length_validator REQUIRED_LENGTH,
            create_face_frequency_validator [(4, 1)]])"

definition STRAIGHT_FLUSH :: Rank where
  "STRAIGHT_FLUSH = Rank_init ''Straight Flush'' 9
     (Some [create_length_validator REQUIRED_LENGTH,
            create_sequence_validator (Some INVALID_STRAIGHT_STARTERS),
            create_suit_frequency_validator [(REQUIRED_LENGTH, 1)]])"

definition ROYAL_FLUSH :: Rank where
  "ROYAL_FLUSH = Rank_init ''Royal Flush'' 10
     (Some [create_length_validator REQUIRED_LENGTH,
            create_sequence_validator (Some INVALID_STRAIGHT_STARTERS),
            create_suit_frequency_validator [(REQUIRED_LENGTH, 1)],
            create_face_validator ROYAL_FACES])"

definition DEFAULT_RANKS :: "Rank list" where
  "DEFAULT_RANKS =
     [ROYAL_FLUSH, STRAIGHT_FLUSH, FOUR_OF_A_KIND, FULL_HOUSE, FLUSH, STRAIGHT,
      THREE_OF_A_KIND, TWO_PAIR, PAIR, HIGH]"

text \<open>
  \<open>get_rank\<close>: \<open>ranks or DEFAULT_RANKS\<close> takes the default for \<open>None\<close> and for an
  empty sequence; the loop returns the first rank the cards fulfil, and
  \<open>NULL_RANK\<close> when there is none.
\<close>

fun get_rank_loop :: "Rank list \<Rightarrow> Card list \<Rightarrow> error + Rank" where
  "get_rank_loop [] cards = Inr NULL_RANK"
| "get_rank_loop (r # rs) cards =
     bind_res (is_rank r cards) (\<lambda>ok. if ok then Inr r else get_rank_loop rs cards)"

definition get_rank :: "Card list \<Rightarrow> Rank list option \<Rightarrow> error + Rank" where
  "get_rank cards ranks =
     get_rank_loop (case ranks of None \<Rightarrow> DEFAULT_RANKS
                    | Some rs \<Rightarrow> if rs = [] then DEFAULT_RANKS else rs) cards"

section \<open>Hand comparator (pokerLogic.py)\<close>

datatype Comparison = GREATER | EQUAL | LESSER

definition FACE_FREQUENCY_RANKS :: "Rank list" where
  "FACE_FREQUENCY_RANKS = [HIGH, PAIR, TWO_PAIR, THREE_OF_A_KIND, FULL_HOUSE, FOUR_OF_A_KIND]"

definition SEQUENTIAL_RANKS :: "Rank list" where
  "SEQUENTIAL_RANKS = [STRAIGHT, STRAIGHT_FLUSH, ROYAL_FLUSH]"

definition SUIT_FREQUENCY_RANKS :: "Rank list" where
  "SUIT_FREQUENCY_RANKS = [FLUSH]"

text \<open>\<open>r in ranks\<close> on a tuple of ranks compares with \<open>__eq__\<close>, that is by value.\<close>

definition rank_in :: "Rank \<Rightarrow> Rank list \<Rightarrow> bool" where
  "rank_in r rs = list_ex (\<lambda>x. rank_eq x r) rs"

definition compare_group_items :: "Face \<times> Card list \<Rightarrow> Face \<times> Card list \<Rightarrow> Comparison" where
  "compare_group_items group_item1 group_item2 =
     (let face1 = fst group_item1; group1 = snd group_item1;
          face2 = fst group_item2; group2 = snd group_item2
      in if length group1 > length group2 \<or>
            (length group1 = length group2 \<and> face_value face1 > face_value face2)
         then GREATER
         else if length group1 < length group2 \<or>
            (length group1 = length group2 \<and> face_value face1 < face_value face2)
         then LESSER
         else EQUAL)"

definition compare_length :: "'a list \<Rightarrow> 'b list \<Rightarrow> Comparison" where
  "compare_length iterable1 iterable2 =
     (if length iterable1 > length iterable2 then GREATER
      else if length iterable1 < length iterable2 then LESSER
      else EQUAL)"

text \<open>
  \<open>compare_by_face_frequency\<close>: the loop over the zipped group items returns at
  the first pair that is not EQUAL (\<open>Some\<close>), or falls through (\<open>None\<close>) to
  \<open>compare_length\<close> of the two dicts.
\<close>

fun match_up_loop ::
  "((Face \<times> Card list) \<times> (Face \<times> Card list)) list \<Rightarrow> Comparison option" where
  "match_up_loop [] = None"
| "match_up_loop ((inc_group_item, cha_group_item) # rest) =
     (let result = compare_group_items inc_group_item cha_group_item
      in if result \<noteq> EQUAL then Some result else match_up_loop rest)"

definition compare_by_face_frequency :: "Card list \<Rightarrow> Card list \<Rightarrow> error + Comparison" where
  "compare_by_face_frequency incumbent_hand challenger_hand =
     bind_res (get_groups_by_face incumbent_hand) (\<lambda>incumbent_groups.
     bind_res (get_groups_by_face challenger_hand) (\<lambda>challenger_groups.
     bind_res (get_group_items_by_size_and_value incumbent_groups True) (\<lambda>inc_items.
     bind_res (get_group_items_by_size_and_value challenger_groups True) (\<lambda>cha_items.
       case match_up_loop (zip inc_items cha_items) of
         Some result \<Rightarrow> Inr result
       | None \<Rightarrow> Inr (compare_length incumbent_groups challenger_groups)))))"

definition compare_by_straight_starter :: "Card list \<Rightarrow> Card list \<Rightarrow> error + Comparison" where
  "compare_by_straight_starter incumbent_hand challenger_hand =
     bind_res (get_most_frequent_starter_of_sequences_including_faces
                 (get_faces incumbent_hand) REQUIRED_LENGTH (Some INVALID_STRAIGHT_STARTERS))
       (\<lambda>inc_starter.
     bind_res (get_most_frequent_starter_of_sequences_including_faces
                 (get_faces challenger_hand) REQUIRED_LENGTH (Some INVALID_STRAIGHT_STARTERS))
       (\<lambda>cha_starter.
          if inc_starter = cha_starter then Inr EQUAL
          else if is_straight_starter_greater inc_starter cha_starter then Inr GREATER
          else Inr LESSER))"

text \<open>
  \<open>compare_by_value\<close>: both hands sorted descending (cards compare by value), then
  the loop over the zipped cards, then \<open>compare_length\<close> of the two hands.
\<close>

fun value_loop :: "(Card \<times> Card) list \<Rightarrow> Comparison option" where
  "value_loop [] = None"
| "value_loop ((inc_item, cha_item) # rest) =
     (if card_value inc_item > card_value cha_item then Some GREATER
      else if card_value inc_item < card_value cha_item then Some LESSER
      else value_loop rest)"

definition compare_by_value :: "Card list \<Rightarrow> Card list \<Rightarrow> Comparison" where
  "compare_by_value incumbent_hand challenger_hand =
     (let sorted_incumbent = py_sorted card_value True incumbent_hand;
          sorted_challenger = py_sorted card_value True challenger_hand
      in case value_loop (zip sorted_incumbent sorted_challenger) of
           Some result \<Rightarrow> result
         | None \<Rightarrow> compare_length incumbent_hand challenger_hand)"

definition compare_hands :: "Card list \<Rightarrow> Card list \<Rightarrow> error + Comparison" where
  "compare_hands incumbent_hand challenger_hand =
     bind_res (get_rank incumbent_hand None) (\<lambda>incumbent_rank.
     bind_res (get_rank challenger_hand None) (\<lambda>challenger_rank.
       if rank_gt incumbent_rank challenger_rank then Inr GREATER
       else if rank_lt incumbent_rank challenger_rank then Inr LESSER
       else if rank_in incumbent_rank FACE_FREQUENCY_RANKS
         then compare_by_face_frequency incumbent_hand challenger_hand
       else if rank_in incumbent_rank SEQUENTIAL_RANKS
         then compare_by_straight_starter incumbent_hand challenger_hand
       else Inr (compare_by_value incumbent_hand challenger_hand)))"

section \<open>Auxiliary notions for the proofs\<close>

text \<open>
  The starters that \<open>get_starters_of_sequences_including_face\<close> returns, as a plain
  list (the function never raises, see \<open>get_starters_face_eq\<close>).
\<close>

definition starters_of :: "Face \<Rightarrow> nat \<Rightarrow> Face list option \<Rightarrow> Face list" where
  "starters_of fc n invalid =
     (case get_starters_of_sequences_including_face fc n invalid of
        Inr s \<Rightarrow> s
      | Inl e \<Rightarrow> [])"

text \<open>The opposite answer of a comparison.\<close>

fun flip_comparison :: "Comparison \<Rightarrow> Comparison" where
  "flip_comparison GREATER = LESSER"
| "flip_comparison LESSER = GREATER"
| "flip_comparison EQUAL = EQUAL"

text \<open>
  The keys of the dict that \<open>get_groups_by_face\<close> and \<open>get_groups_by_suit\<close>
  build, in the order of the dict.
\<close>

definition group_keys :: "'k list \<Rightarrow> 'k list" where
  "group_keys ks = map fst (fold (\<lambda>k d. AList.update k ([] :: Card list) d) ks [])"

section \<open>The tie-breaks as the specification words them\<close>

text \<open>
  Two lists are compared pairwise: the first pair that differs decides; when all compared
  pairs are equal the result is the given tie-break.
\<close>

fun first_difference_spec :: "('a::linorder) list \<Rightarrow> 'a list \<Rightarrow> Comparison \<Rightarrow> Comparison" where
  "first_difference_spec (x # xs) (y # ys) tie =
     (if x > y then GREATER else if x < y then LESSER else first_difference_spec xs ys tie)"
| "first_difference_spec [] ys tie = tie"
| "first_difference_spec xs [] tie = tie"

text \<open>
  The face groups of a hand, each as the pair of its size and the value of its face, in
  descending order of (size, value).
\<close>

definition face_groups_spec :: "Card list \<Rightarrow> (nat \<times> int) list" where
  "face_groups_spec hand =
     rev (sort (map (\<lambda>fc. (count_list (map face hand) fc, face_value fc))
                  (remdups (map face hand))))"

text \<open>The comparison of two counts.\<close>

definition compare_counts_spec :: "nat \<Rightarrow> nat \<Rightarrow> Comparison" where
  "compare_counts_spec m n = (if m > n then GREATER else if m < n then LESSER else EQUAL)"

text \<open>The values of the cards of a hand in descending order.\<close>

definition values_descending_spec :: "Card list \<Rightarrow> int list" where
  "values_descending_spec hand = rev (sort (map card_value hand))"

section \<open>The example hands of the specification\<close>

definition full_house_kings :: "Card list" where
  "full_house_kings =
     [\<lparr>face = KING, suit = SPADES\<rparr>, \<lparr>face = KING, suit = HEARTS\<rparr>,
      \<lparr>face = KING, suit = CLOVERS\<rparr>, \<lparr>face = TWO, suit = SPADES\<rparr>,
      \<lparr>face = TWO, suit = HEARTS\<rparr>]"

definition full_house_queens :: "Card list" where
  "full_house_queens =
     [\<lparr>face = QUEEN, suit = SPADES\<rparr>, \<lparr>face = QUEEN, suit = HEARTS\<rparr>,
      \<lparr>face = QUEEN, suit = CLOVERS\<rparr>, \<lparr>face = ACE, suit = SPADES\<rparr>,
      \<lparr>face = ACE, suit = HEARTS\<rparr>]"

definition two_pair_kings :: "Card list" where
  "two_pair_kings =
     [\<lparr>face = ACE, suit = SPADES\<rparr>, \<lparr>face = ACE, suit = HEARTS\<rparr>,
      \<lparr>face = KING, suit = CLOVERS\<rparr>, \<lparr>face = KING, suit = SPADES\<rparr>,
      \<lparr>face = TWO, suit = HEARTS\<rparr>]"

definition two_pair_queens :: "Card list" where
  "two_pair_queens =
     [\<lparr>face = ACE, suit = CLOVERS\<rparr>, \<lparr>face = ACE, suit = DIAMONDS\<rparr>,
      \<lparr>face = QUEEN, suit = CLOVERS\<rparr>, \<lparr>face = QUEEN, suit = SPADES\<rparr>,
      \<lparr>face = NINE, suit = HEARTS\<rparr>]"

definition flush_spades :: "Card list" where
  "flush_spades =
     [\<lparr>face = TWO, suit = SPADES\<rparr>, \<lparr>face = FIVE, suit = SPADES\<rparr>,
      \<lparr>face = SEVEN, suit = SPADES\<rparr>, \<lparr>face = NINE, suit = SPADES\<rparr>,
      \<lparr>face = KING, suit = SPADES\<rparr>]"

definition flush_hearts :: "Card list" where
  "flush_hearts =
     [\<lparr>face = THREE, suit = HEARTS\<rparr>, \<lparr>face = FIVE, suit = HEARTS\<rparr>,
      \<lparr>face = SEVEN, suit = HEARTS\<rparr>, \<lparr>face = NINE, suit = HEARTS\<rparr>,
      \<lparr>face = KING, suit = HEARTS\<rparr>]"

definition ace_low_straight :: "Card list" where
  "ace_low_straight =
     [\<lparr>face = ACE, suit = SPADES\<rparr>, \<lparr>face = TWO, suit = HEARTS\<rparr>,
      \<lparr>face = THREE, suit = SPADES\<rparr>, \<lparr>face = FOUR, suit = SPADES\<rparr>,
      \<lparr>face = FIVE, suit = SPADES\<rparr>]"

definition six_high_straight :: "Card list" where
  "six_high_straight =
     [\<lparr>face = TWO, suit = SPADES\<rparr>, \<lparr>face = THREE, suit = HEARTS\<rparr>,
      \<lparr>face = FOUR, suit = SPADES\<rparr>, \<lparr>face = FIVE, suit = SPADES\<rparr>,
      \<lparr>face = SIX, suit = SPADES\<rparr>]"

definition ace_high_straight :: "Card list" where
  "ace_high_straight =
     [\<lparr>face = TEN, suit = SPADES\<rparr>, \<lparr>face = JACK, suit = HEARTS\<rparr>,
      \<lparr>face = QUEEN, suit = SPADES\<rparr>, \<lparr>face = KING, suit = SPADES\<rparr>,
      \<lparr>face = ACE, suit = SPADES\<rparr>]"

section \<open>Facts about the card model\<close>

lemma MIN_VALUE_eq: "MIN_VALUE = 2"
  by (simp add: MIN_VALUE_def Face_members_def)

lemma MAX_VALUE_eq: "MAX_VALUE = 14"
  by (simp add: MAX_VALUE_def Face_members_def)

lemma Face_call_value: "Face_call (face_value fc) = Inr fc"
  by (cases fc) (simp_all add: Face_call_def Face_members_def)

lemma get_next_face_simps:
  "get_next_face TWO = Inr THREE" "get_next_face THREE = Inr FOUR"
  "get_next_face FOUR = Inr FIVE" "get_next_face FIVE = Inr SIX"
  "get_next_face SIX = Inr SEVEN" "get_next_face SEVEN = Inr EIGHT"
  "get_next_face EIGHT = Inr NINE" "get_next_face NINE = Inr TEN"
  "get_next_face TEN = Inr JACK" "get_next_face JACK = Inr QUEEN"
  "get_next_face QUEEN = Inr KING" "get_next_face KING = Inr ACE"
  "get_next_face ACE = Inr TWO"
  by (simp_all add: get_next_face_def Face_call_def Face_members_def MIN_VALUE_eq)

lemma get_previous_face_simps:
  "get_previous_face TWO = Inr ACE" "get_previous_face THREE = Inr TWO"
  "get_previous_face FOUR = Inr THREE" "get_previous_face FIVE = Inr FOUR"
  "get_previous_face SIX = Inr FIVE" "get_previous_face SEVEN = Inr SIX"
  "get_previous_face EIGHT = Inr SEVEN" "get_previous_face NINE = Inr EIGHT"
  "get_previous_face TEN = Inr NINE" "get_previous_face JACK = Inr TEN"
  "get_previous_face QUEEN = Inr JACK" "get_previous_face KING = Inr QUEEN"
  "get_previous_face ACE = Inr KING"
  by (simp_all add: get_previous_face_def Face_call_def Face_members_def MAX_VALUE_eq)

lemma face_value_inj: "face_value a = face_value b \<Longrightarrow> a = b"
  by (cases a; cases b; simp)

lemma face_value_range: "2 \<le> face_value fc \<and> face_value fc \<le> 14"
  by (cases fc) simp_all

section \<open>Evaluation and totality lemmas\<close>

text \<open>
  The continuation of \<open>bind_res\<close> is simplified only once its argument is known.
\<close>

lemma bind_res_weak_cong [cong]: "m = m' \<Longrightarrow> bind_res m k = bind_res m' k"
  by simp

lemma bind_res_Inr_iff:
  "bind_res m k = Inr y \<longleftrightarrow> (\<exists>x. m = Inr x \<and> k x = Inr y)"
  by (cases m) simp_all

lemma counter_update_simps:
  "counter_update [] c = c"
  "counter_update (x # xs) c = counter_update xs (AList.update x (counter_get c x + 1) c)"
  by (simp_all add: counter_update_def)

lemma counter_get_simps:
  "counter_get [] k = 0"
  "counter_get ((k', n) # c) k = (if k' = k then n else counter_get c k)"
  by (simp_all add: counter_get_def)

lemma starters5:
  "get_starters_of_sequences_including_face TWO 5 (Some INVALID_STRAIGHT_STARTERS) = Inr [TWO, ACE]"
  "get_starters_of_sequences_including_face THREE 5 (Some INVALID_STRAIGHT_STARTERS) = Inr [THREE, TWO, ACE]"
  "get_starters_of_sequences_including_face FOUR 5 (Some INVALID_STRAIGHT_STARTERS) = Inr [FOUR, THREE, TWO, ACE]"
  "get_starters_of_sequences_including_face FIVE 5 (Some INVALID_STRAIGHT_STARTERS) = Inr [FIVE, FOUR, THREE, TWO, ACE]"
  "get_starters_of_sequences_including_face SIX 5 (Some INVALID_STRAIGHT_STARTERS) = Inr [SIX, FIVE, FOUR, THREE, TWO]"
  "get_starters_of_sequences_including_face SEVEN 5 (Some INVALID_STRAIGHT_STARTERS) = Inr [SEVEN, SIX, FIVE, FOUR, THREE]"
  "get_starters_of_sequences_including_face EIGHT 5 (Some INVALID_STRAIGHT_STARTERS) = Inr [EIGHT, SEVEN, SIX, FIVE, FOUR]"
  "get_starters_of_sequences_including_face NINE 5 (Some INVALID_STRAIGHT_STARTERS) = Inr [NINE, EIGHT, SEVEN, SIX, FIVE]"
  "get_starters_of_sequences_including_face TEN 5 (Some INVALID_STRAIGHT_STARTERS) = Inr [TEN, NINE, EIGHT, SEVEN, SIX]"
  "get_starters_of_sequences_including_face JACK 5 (Some INVALID_STRAIGHT_STARTERS) = Inr [TEN, NINE, EIGHT, SEVEN]"
  "get_starters_of_sequences_including_face QUEEN 5 (Some INVALID_STRAIGHT_STARTERS) = Inr [TEN, NINE, EIGHT]"
  "get_starters_of_sequences_including_face KING 5 (Some INVALID_STRAIGHT_STARTERS) = Inr [TEN, NINE]"
  "get_starters_of_sequences_including_face ACE 5 (Some INVALID_STRAIGHT_STARTERS) = Inr [ACE, TEN]"
  by (simp_all add: get_starters_of_sequences_including_face_def or_empty_def
      INVALID_STRAIGHT_STARTERS_def eval_nat_numeral get_previous_face_simps)

lemma starters_Suc5:
  "get_starters_of_sequences_including_face fc (Suc (Suc (Suc (Suc (Suc 0))))) invalid =
   get_starters_of_sequences_including_face fc 5 invalid"
  by (simp add: eval_nat_numeral)

lemma faces_loop_Suc5:
  "faces_loop fcs (Suc (Suc (Suc (Suc (Suc 0))))) invalid c = faces_loop fcs 5 invalid c"
  by (simp add: eval_nat_numeral)

lemmas starter_eval =
  get_most_frequent_starter_of_sequences_including_faces_def
  get_starters_of_sequences_including_faces_def faces_loop_Suc5 starters_Suc5 starters5
  counter_update_simps
  counter_get_simps py_max_def get_max_straight_starter_def sorted_starters_def
  py_sorted_def py_last_def starter_key_def MIN_VALUE_eq

lemma is_rank_loop_True_iff:
  "is_rank_loop vs cards = Inr True \<longleftrightarrow> (\<forall>v\<in>set vs. v cards = Inr True)"
proof (induction vs)
  case Nil
  show ?case by simp
next
  case (Cons v vs)
  show ?case
  proof (cases "v cards")
    case (Inl e)
    then show ?thesis by auto
  next
    case (Inr ok)
    with Cons show ?thesis by (cases ok) auto
  qed
qed

lemma is_rank_True_iff:
  "is_rank r cards = Inr True \<longleftrightarrow> (\<forall>v\<in>set (validators r). v cards = Inr True)"
  by (simp add: is_rank_def is_rank_loop_True_iff)

lemma get_rank_loop_reaches:
  "\<forall>x\<in>set pre. is_rank x cards = Inr False \<Longrightarrow>
   get_rank_loop (pre @ rs) cards = get_rank_loop rs cards"
  by (induction pre) simp_all

lemma validators_simps:
  "validators NULL_RANK = []"
  "validators Rank_none = []"
  "validators HIGH = [create_length_validator REQUIRED_LENGTH]"
  "validators PAIR = [create_length_validator REQUIRED_LENGTH,
     create_face_frequency_validator [(2, 1)]]"
  "validators TWO_PAIR = [create_length_validator REQUIRED_LENGTH,
     create_face_frequency_validator [(2, 2)]]"
  "validators THREE_OF_A_KIND = [create_length_validator REQUIRED_LENGTH,
     create_face_frequency_validator [(3, 1)]]"
  "validators STRAIGHT = [create_length_validator REQUIRED_LENGTH,
     create_sequence_validator (Some INVALID_STRAIGHT_STARTERS)]"
  "validators FLUSH = [create_length_validator REQUIRED_LENGTH,
     create_suit_frequency_validator [(REQUIRED_LENGTH, 1)]]"
  "validators FULL_HOUSE = [create_length_validator REQUIRED_LENGTH,
     create_face_frequency_validator [(3, 1), (2, 1)]]"
  "validators FOUR_OF_A_KIND = [create_length_validator REQUIRED_LENGTH,
     create_face_frequency_validator [(4, 1)]]"
  "validators STRAIGHT_FLUSH = [create_length_validator REQUIRED_LENGTH,
     create_sequence_validator (Some INVALID_STRAIGHT_STARTERS),
     create_suit_frequency_validator [(REQUIRED_LENGTH, 1)]]"
  "validators ROYAL_FLUSH = [create_length_validator REQUIRED_LENGTH,
     create_sequence_validator (Some INVALID_STRAIGHT_STARTERS),
     create_suit_frequency_validator [(REQUIRED_LENGTH, 1)],
     create_face_validator ROYAL_FACES]"
  by (simp_all add: NULL_RANK_def Rank_none_def HIGH_def PAIR_def TWO_PAIR_def
      THREE_OF_A_KIND_def STRAIGHT_def FLUSH_def FULL_HOUSE_def FOUR_OF_A_KIND_def
      STRAIGHT_FLUSH_def ROYAL_FLUSH_def Rank_init_def or_empty_def)

lemma rank_value_simps:
  "rank_value NULL_RANK = 0" "rank_value Rank_none = 0" "rank_value HIGH = 1"
  "rank_value PAIR = 2" "rank_value TWO_PAIR = 3" "rank_value THREE_OF_A_KIND = 4"
  "rank_value STRAIGHT = 5" "rank_value FLUSH = 6" "rank_value FULL_HOUSE = 7"
  "rank_value FOUR_OF_A_KIND = 8" "rank_value STRAIGHT_FLUSH = 9"
  "rank_value ROYAL_FLUSH = 10"
  by (simp_all add: NULL_RANK_def Rank_none_def HIGH_def PAIR_def TWO_PAIR_def
      THREE_OF_A_KIND_def STRAIGHT_def FLUSH_def FULL_HOUSE_def FOUR_OF_A_KIND_def
      STRAIGHT_FLUSH_def ROYAL_FLUSH_def Rank_init_def)

lemmas validator_eval =
  create_length_validator_def create_sequence_validator_def create_face_validator_def
  create_suit_validator_def create_face_frequency_validator_def
  create_suit_frequency_validator_def has_required_group_def REQUIRED_LENGTH_def
  ROYAL_FACES_def get_faces_def get_suits_def or_empty_def get_next_face_simps

text \<open>
  Claim C8. \<open>get_next_face\<close> and \<open>get_previous_face\<close> return a face for each of
  the thirteen faces and never raise. They wrap around: the face after Ace is Two and the
  face before Two is Ace. For every face but Ace the next face has the value one greater,
  and for every face but Two the previous face has the value one less.
\<close>

theorem next_previous_face_cyclic:
  "(\<exists>g. get_next_face fc = Inr g) \<and> (\<exists>g. get_previous_face fc = Inr g) \<and>
   get_next_face ACE = Inr TWO \<and> get_previous_face TWO = Inr ACE \<and>
   (fc \<noteq> ACE \<longrightarrow> (\<exists>g. get_next_face fc = Inr g \<and> face_value g = face_value fc + 1)) \<and>
   (fc \<noteq> TWO \<longrightarrow> (\<exists>g. get_previous_face fc = Inr g \<and> face_value g = face_value fc - 1))"
  by (cases fc) (simp_all add: get_next_face_simps get_previous_face_simps)

theorem next_previous_face_cyclic_witness:
  "KING \<noteq> ACE \<and> KING \<noteq> TWO \<and>
   get_next_face KING = Inr ACE \<and> face_value ACE = face_value KING + 1 \<and>
   get_previous_face KING = Inr QUEEN \<and> face_value QUEEN = face_value KING - 1"
  using next_previous_face_cyclic [of KING]
  by (simp add: get_next_face_simps get_previous_face_simps)

text \<open>
  Claim C10. For all faces \<open>a\<close> and \<open>b\<close>, \<open>a\<close> has greater starter precedence than
  \<open>b\<close> exactly when \<open>b\<close> has lesser starter precedence than \<open>a\<close>, and exactly one
  of the three holds: \<open>a = b\<close>, \<open>a\<close> is greater than \<open>b\<close>, \<open>a\<close> is lesser than
  \<open>b\<close>. Both relations are transitive, so starter precedence is a strict total order
  on the faces, and Ace is its least element: Ace is lesser than every other face, Two
  included.
\<close>

theorem straight_starter_trichotomy:
  "(is_straight_starter_greater a b \<longleftrightarrow> is_straight_starter_lesser b a) \<and>
   (a = b \<or> is_straight_starter_greater a b \<or> is_straight_starter_lesser a b) \<and>
   \<not> (a = b \<and> is_straight_starter_greater a b) \<and>
   \<not> (a = b \<and> is_straight_starter_lesser a b) \<and>
   \<not> (is_straight_starter_greater a b \<and> is_straight_starter_lesser a b) \<and>
   (is_straight_starter_greater a b \<and> is_straight_starter_greater b c \<longrightarrow>
      is_straight_starter_greater a c) \<and>
   (is_straight_starter_lesser a b \<and> is_straight_starter_lesser b c \<longrightarrow>
      is_straight_starter_lesser a c) \<and>
   (b \<noteq> ACE \<longrightarrow> is_straight_starter_lesser ACE b) \<and>
   is_straight_starter_lesser ACE TWO"
proof -
  have ab: "a \<noteq> b \<Longrightarrow> face_value a < face_value b \<or> face_value b < face_value a"
    using face_value_inj [of a b] by linarith
  have ac: "face_value a = face_value c \<Longrightarrow> a = c"
    by (rule face_value_inj)
  have tri: "(is_straight_starter_greater a b \<longleftrightarrow> is_straight_starter_lesser b a) \<and>
   (a = b \<or> is_straight_starter_greater a b \<or> is_straight_starter_lesser a b) \<and>
   \<not> (a = b \<and> is_straight_starter_greater a b) \<and>
   \<not> (a = b \<and> is_straight_starter_lesser a b) \<and>
   \<not> (is_straight_starter_greater a b \<and> is_straight_starter_lesser a b)"
    using ab by (auto simp: is_straight_starter_greater_def is_straight_starter_lesser_def)
  have gt: "is_straight_starter_greater a b \<and> is_straight_starter_greater b c \<longrightarrow>
      is_straight_starter_greater a c"
    using ac by (auto simp: is_straight_starter_greater_def split: if_splits)
  have lt: "is_straight_starter_lesser a b \<and> is_straight_starter_lesser b c \<longrightarrow>
      is_straight_starter_lesser a c"
    using ac by (auto simp: is_straight_starter_lesser_def split: if_splits)
  have least: "(b \<noteq> ACE \<longrightarrow> is_straight_starter_lesser ACE b) \<and>
      is_straight_starter_lesser ACE TWO"
    by (auto simp: is_straight_starter_lesser_def)
  show ?thesis using tri gt lt least by blast
qed

theorem straight_starter_trichotomy_witness:
  "is_straight_starter_greater TEN TWO \<and> is_straight_starter_greater TWO ACE \<and>
   is_straight_starter_greater TEN ACE \<and>
   is_straight_starter_lesser ACE TWO \<and> is_straight_starter_lesser TWO TEN \<and>
   is_straight_starter_lesser ACE TEN \<and>
   \<not> is_straight_starter_lesser TWO ACE \<and> TWO \<noteq> ACE"
proof -
  have g: "is_straight_starter_greater TEN TWO" "is_straight_starter_greater TWO ACE"
    by (simp_all add: is_straight_starter_greater_def)
  have l: "is_straight_starter_lesser ACE TWO" "is_straight_starter_lesser TWO TEN"
    by (simp_all add: is_straight_starter_lesser_def)
  have "is_straight_starter_greater TEN ACE"
    using straight_starter_trichotomy [of TEN TWO ACE] g by blast
  moreover have "is_straight_starter_lesser ACE TEN"
    using straight_starter_trichotomy [of ACE TWO TEN] l by blast
  moreover have "\<not> is_straight_starter_lesser TWO ACE"
    using straight_starter_trichotomy [of TWO ACE ACE] g(2) by blast
  ultimately show ?thesis using g l by simp
qed

text \<open>
  Claim C9. A rank with no validators matches every collection of cards, of any length:
  \<open>is_rank\<close> returns True for it, in particular for \<open>NULL_RANK\<close> and for
  \<open>Rank.none()\<close>. So when such a rank stands in the list of candidate ranks given to
  \<open>get_rank\<close>, every hand that reaches it (every rank before it returned False) gets
  that rank.
\<close>

theorem no_validators_always_match:
  "(validators r = [] \<longrightarrow> is_rank r cards = Inr True) \<and>
   is_rank NULL_RANK cards = Inr True \<and>
   is_rank Rank_none cards = Inr True \<and>
   (validators r = [] \<and> (\<forall>x\<in>set pre. is_rank x cards = Inr False) \<longrightarrow>
      get_rank cards (Some (pre @ r # post)) = Inr r)"
proof -
  have a: "validators r = [] \<Longrightarrow> is_rank r cards = Inr True" for r :: Rank
    by (simp add: is_rank_def)
  have b: "get_rank cards (Some (pre @ r # post)) = Inr r"
    if "validators r = []" and "\<forall>x\<in>set pre. is_rank x cards = Inr False"
    using that a [of r] by (simp add: get_rank_def get_rank_loop_reaches)
  show ?thesis
    using a b by (simp add: validators_simps)
qed

theorem no_validators_always_match_witness:
  "validators NULL_RANK = [] \<and> is_rank HIGH [] = Inr False \<and>
   is_rank NULL_RANK [] = Inr True \<and>
   get_rank [] (Some [HIGH, NULL_RANK, HIGH]) = Inr NULL_RANK"
  using no_validators_always_match [of NULL_RANK "[]" "[HIGH]" "[HIGH]"]
  by (simp add: validators_simps is_rank_def create_length_validator_def REQUIRED_LENGTH_def)

text \<open>
  Claim C6. Every 5-card hand that satisfies all the validators of Straight Flush also
  satisfies all the validators of Flush and all the validators of Straight: the
  validators of each of the two are among those of Straight Flush, and \<open>is_rank\<close>
  returns True for all three ranks.
\<close>

theorem straight_flush_implies_flush_and_straight:
  assumes "length h = 5"
    and "\<forall>v\<in>set (validators STRAIGHT_FLUSH). v h = Inr True"
  shows "(\<forall>v\<in>set (validators FLUSH). v h = Inr True) \<and>
         (\<forall>v\<in>set (validators STRAIGHT). v h = Inr True) \<and>
         set (validators FLUSH) \<subseteq> set (validators STRAIGHT_FLUSH) \<and>
         set (validators STRAIGHT) \<subseteq> set (validators STRAIGHT_FLUSH) \<and>
         is_rank STRAIGHT_FLUSH h = Inr True \<and>
         is_rank FLUSH h = Inr True \<and> is_rank STRAIGHT h = Inr True"
  using assms(2) by (simp add: is_rank_True_iff validators_simps)

theorem straight_flush_implies_flush_and_straight_witness:
  "is_rank STRAIGHT_FLUSH
     [\<lparr>face = NINE, suit = SPADES\<rparr>, \<lparr>face = TEN, suit = SPADES\<rparr>,
      \<lparr>face = JACK, suit = SPADES\<rparr>, \<lparr>face = QUEEN, suit = SPADES\<rparr>,
      \<lparr>face = KING, suit = SPADES\<rparr>] = Inr True \<and>
   is_rank FLUSH
     [\<lparr>face = NINE, suit = SPADES\<rparr>, \<lparr>face = TEN, suit = SPADES\<rparr>,
      \<lparr>face = JACK, suit = SPADES\<rparr>, \<lparr>face = QUEEN, suit = SPADES\<rparr>,
      \<lparr>face = KING, suit = SPADES\<rparr>] = Inr True \<and>
   is_rank STRAIGHT
     [\<lparr>face = NINE, suit = SPADES\<rparr>, \<lparr>face = TEN, suit = SPADES\<rparr>,
      \<lparr>face = JACK, suit = SPADES\<rparr>, \<lparr>face = QUEEN, suit = SPADES\<rparr>,
      \<lparr>face = KING, suit = SPADES\<rparr>] = Inr True"
proof -
  let ?h = "[\<lparr>face = NINE, suit = SPADES\<rparr>, \<lparr>face = TEN, suit = SPADES\<rparr>,
      \<lparr>face = JACK, suit = SPADES\<rparr>, \<lparr>face = QUEEN, suit = SPADES\<rparr>,
      \<lparr>face = KING, suit = SPADES\<rparr>]"
  have len: "length ?h = 5" by simp
  have sf: "is_rank STRAIGHT_FLUSH ?h = Inr True"
    by (simp add: is_rank_def validators_simps validator_eval starter_eval)
  then have all: "\<forall>v\<in>set (validators STRAIGHT_FLUSH). v ?h = Inr True"
    by (simp only: is_rank_True_iff)
  from straight_flush_implies_flush_and_straight [OF len all] show ?thesis
    by blast
qed

section \<open>Totality of the starter computation\<close>

lemma get_previous_face_total: "\<exists>g. get_previous_face fc = Inr g"
  by (cases fc) (simp_all add: get_previous_face_simps)

lemma get_next_face_total: "\<exists>g. get_next_face fc = Inr g"
  by (cases fc) (simp_all add: get_next_face_simps)

lemma starters_loop_total:
  "\<exists>S. starters_loop n fc ivd acc = Inr S \<and> set acc \<subseteq> set S \<and> (distinct acc \<longrightarrow> distinct S)"
proof (induction n arbitrary: fc acc)
  case 0
  show ?case by simp
next
  case (Suc n)
  obtain p where p: "get_previous_face fc = Inr p"
    using get_previous_face_total by blast
  show ?case
  proof (cases "fc \<in> set acc")
    case True
    then show ?thesis by simp
  next
    case False
    let ?acc = "if fc \<notin> set ivd then acc @ [fc] else acc"
    obtain S where S: "starters_loop n p ivd ?acc = Inr S" "set ?acc \<subseteq> set S"
      "distinct ?acc \<longrightarrow> distinct S"
      using Suc.IH [of p ?acc] by blast
    have "starters_loop (Suc n) fc ivd acc = Inr S"
      using False p S(1) by simp
    moreover have "set acc \<subseteq> set S" using S(2) by (auto split: if_splits)
    moreover have "distinct acc \<longrightarrow> distinct S" using S(3) False by (auto split: if_splits)
    ultimately show ?thesis by blast
  qed
qed

lemma get_starters_face_eq:
  "get_starters_of_sequences_including_face fc n ivd = Inr (starters_of fc n ivd)"
proof -
  obtain S where "starters_loop n fc (or_empty ivd) [] = Inr S"
    using starters_loop_total by blast
  then show ?thesis
    by (simp add: starters_of_def get_starters_of_sequences_including_face_def)
qed

lemma distinct_starters_of: "distinct (starters_of fc n ivd)"
proof -
  obtain S where "starters_loop n fc (or_empty ivd) [] = Inr S" "distinct S"
    using starters_loop_total [of n fc "or_empty ivd" "[]"] by auto
  then show ?thesis
    by (simp add: starters_of_def get_starters_of_sequences_including_face_def)
qed

lemma starters_of_5_nonempty: "starters_of fc 5 (Some INVALID_STRAIGHT_STARTERS) \<noteq> []"
  by (cases fc) (simp_all add: starters_of_def starters5)

lemma starters_of_None_nonempty: "0 < n \<Longrightarrow> starters_of fc n None \<noteq> []"
proof -
  assume "0 < n"
  then obtain m where n: "n = Suc m" by (cases n) auto
  obtain p where p: "get_previous_face fc = Inr p"
    using get_previous_face_total by blast
  obtain S where S: "starters_loop m p [] [fc] = Inr S" "set [fc] \<subseteq> set S"
    using starters_loop_total [of m p "[]" "[fc]"] by blast
  have "starters_of fc n None = S"
    using n p S(1)
    by (simp add: starters_of_def get_starters_of_sequences_including_face_def or_empty_def)
  then show ?thesis using S(2) by auto
qed

lemma faces_loop_eq:
  "faces_loop fcs n ivd c = Inr (fold (\<lambda>fc. counter_update (starters_of fc n ivd)) fcs c)"
  by (induction fcs arbitrary: c) (simp_all add: get_starters_face_eq)

lemma sequence_loop_total: "\<exists>b. sequence_loop n s faces = Inr b"
proof (induction n arbitrary: s)
  case 0
  show ?case by auto
next
  case (Suc n)
  obtain g where "get_next_face s = Inr g" using get_next_face_total by blast
  then show ?case using Suc [of g] by auto
qed

subsection \<open>Counters\<close>

lemma counter_update_keys: "fst ` set (counter_update xs c) = set xs \<union> fst ` set c"
  by (induction xs arbitrary: c) (auto simp: counter_update_simps AList.dom_update)

lemma counter_update_distinct:
  "distinct (map fst c) \<Longrightarrow> distinct (map fst (counter_update xs c))"
  by (induction xs arbitrary: c) (simp_all add: counter_update_simps AList.distinct_update)

lemma counter_get_update:
  "counter_get (counter_update xs c) k = counter_get c k + count_list xs k"
proof (induction xs arbitrary: c)
  case Nil
  show ?case by (simp add: counter_update_simps)
next
  case (Cons x xs)
  have "counter_get (AList.update x (counter_get c x + 1) c) k =
        counter_get c k + (if x = k then 1 else 0)"
    by (simp add: counter_get_def AList.update_conv')
  then show ?case using Cons [of "AList.update x (counter_get c x + 1) c"]
    by (simp add: counter_update_simps)
qed

lemma counter_get_in_values:
  "distinct (map fst c) \<Longrightarrow> (k, v) \<in> set c \<Longrightarrow> counter_get c k = v"
  by (simp add: counter_get_def)

lemma py_max_eq: "xs \<noteq> [] \<Longrightarrow> py_max xs = Inr (Max (set xs))"
proof (cases xs)
  case Nil
  assume "xs \<noteq> []"
  with Nil show ?thesis by simp
next
  case (Cons a list)
  then show ?thesis
    using Max.set_eq_fold [of a list] by (simp add: py_max_def)
qed

lemma py_max_Nil: "py_max [] = Inl ValueError"
  by (simp add: py_max_def)

lemma most_frequent_starter_cases:
  "((\<exists>fc\<in>set faces. starters_of fc n ivd \<noteq> []) \<longrightarrow>
      (\<exists>s. get_most_frequent_starter_of_sequences_including_faces faces n ivd = Inr s)) \<and>
   (\<not> (\<exists>fc\<in>set faces. starters_of fc n ivd \<noteq> []) \<longrightarrow>
      get_most_frequent_starter_of_sequences_including_faces faces n ivd = Inl ValueError)"
proof -
  define c where "c = fold (\<lambda>fc. counter_update (starters_of fc n ivd)) (remdups faces) []"
  have cs: "get_starters_of_sequences_including_faces faces n ivd = Inr c"
    by (simp add: get_starters_of_sequences_including_faces_def faces_loop_eq c_def)
  have keys_gen: "fst ` set (fold (\<lambda>fc. counter_update (starters_of fc n ivd)) fcs d) =
      (\<Union>fc\<in>set fcs. set (starters_of fc n ivd)) \<union> fst ` set d" for fcs d
    by (induction fcs arbitrary: d) (auto simp: counter_update_keys)
  have dist_gen: "distinct (map fst d) \<Longrightarrow>
      distinct (map fst (fold (\<lambda>fc. counter_update (starters_of fc n ivd)) fcs d))" for fcs d
    by (induction fcs arbitrary: d) (simp_all add: counter_update_distinct)
  have keys: "fst ` set c = (\<Union>fc\<in>set faces. set (starters_of fc n ivd))"
    using keys_gen [of "remdups faces" "[]"] by (simp add: c_def)
  have dist: "distinct (map fst c)"
    using dist_gen [of "[]" "remdups faces"] by (simp add: c_def)
  show ?thesis
  proof (cases "\<exists>fc\<in>set faces. starters_of fc n ivd \<noteq> []")
    case False
    then have "fst ` set c = {}" using keys by auto
    then have "c = []" by auto
    then show ?thesis using False cs
      by (simp add: get_most_frequent_starter_of_sequences_including_faces_def py_max_Nil)
  next
    case True
    then have "fst ` set c \<noteq> {}" using keys by auto
    then have ne: "c \<noteq> []" by auto
    define m where "m = Max (set (map snd c))"
    have pm: "py_max (map snd c) = Inr m"
      using ne by (simp add: py_max_eq m_def)
    have "m \<in> set (map snd c)"
      unfolding m_def using ne by (intro Max_in) auto
    then obtain k where k: "(k, m) \<in> set c" by auto
    then have "counter_get c k = m" using dist by (rule counter_get_in_values [rotated])
    then have "k \<in> set (filter (\<lambda>fc. counter_get c fc = m) (map fst c))"
      using k by force
    then have "sort_key starter_key (filter (\<lambda>fc. counter_get c fc = m) (map fst c)) \<noteq> []"
      by (metis empty_iff list.set(1) set_sort)
    then have "\<exists>s. get_max_straight_starter (filter (\<lambda>fc. counter_get c fc = m) (map fst c)) = Inr s"
      by (simp add: get_max_straight_starter_def sorted_starters_def py_sorted_def py_last_def
          split: list.splits)
    then show ?thesis using True cs pm
      by (simp add: get_most_frequent_starter_of_sequences_including_faces_def)
  qed
qed

lemma most_frequent_starter_5_total:
  assumes "faces \<noteq> []"
  shows "\<exists>s. get_most_frequent_starter_of_sequences_including_faces faces 5
         (Some INVALID_STRAIGHT_STARTERS) = Inr s"
proof -
  obtain fc where "fc \<in> set faces" using assms by (cases faces) auto
  then have "\<exists>fc\<in>set faces. starters_of fc 5 (Some INVALID_STRAIGHT_STARTERS) \<noteq> []"
    using starters_of_5_nonempty by blast
  then show ?thesis
    using most_frequent_starter_cases [of faces 5 "Some INVALID_STRAIGHT_STARTERS"] by blast
qed

lemma most_frequent_starter_None_total:
  assumes "faces \<noteq> []" and "0 < n"
  shows "\<exists>s. get_most_frequent_starter_of_sequences_including_faces faces n None = Inr s"
proof -
  obtain fc where "fc \<in> set faces" using assms(1) by (cases faces) auto
  then have "\<exists>fc\<in>set faces. starters_of fc n None \<noteq> []"
    using starters_of_None_nonempty [OF assms(2)] by blast
  then show ?thesis
    using most_frequent_starter_cases [of faces n None] by blast
qed

lemma most_frequent_starter_Nil:
  "get_most_frequent_starter_of_sequences_including_faces [] n ivd = Inl ValueError"
  using most_frequent_starter_cases [of "[]" n ivd] by simp

section \<open>The groups of a hand\<close>

lemma update_distinct_map:
  "distinct (map fst g) \<Longrightarrow> map_of g k = Some v \<Longrightarrow>
   AList.update k w g = map (\<lambda>(k', v'). if k' = k then (k', w) else (k', v')) g"
proof (induction g)
  case Nil
  then show ?case by simp
next
  case (Cons p g)
  obtain k0 v0 where p: "p = (k0, v0)" by (cases p)
  show ?case
  proof (cases "k0 = k")
    case True
    then have "k \<notin> fst ` set g" using Cons.prems(1) p by auto
    then have "map (\<lambda>(k', v'). if k' = k then (k', w) else (k', v')) g = g"
      by (intro map_idI) force
    then show ?thesis using True p by simp
  next
    case False
    then show ?thesis using Cons p by simp
  qed
qed

lemma groups_loop_eq:
  "distinct (map fst g) \<Longrightarrow> attr ` set cards \<subseteq> fst ` set g \<Longrightarrow>
   groups_loop attr cards g =
     Inr (map (\<lambda>(k, v). (k, v @ filter (\<lambda>c. attr c = k) cards)) g)"
proof (induction cards arbitrary: g)
  case Nil
  then show ?case by simp
next
  case (Cons c cards)
  from Cons.prems(2) have "attr c \<in> fst ` set g" by simp
  then obtain v where v: "map_of g (attr c) = Some v"
    by (metis domD dom_map_of_conv_image_fst)
  let ?g = "AList.update (attr c) (v @ [c]) g"
  have g': "?g = map (\<lambda>(k', v'). if k' = attr c then (k', v @ [c]) else (k', v')) g"
    using Cons.prems(1) v by (rule update_distinct_map)
  have d: "distinct (map fst ?g)" using Cons.prems(1) by (rule AList.distinct_update)
  have s: "attr ` set cards \<subseteq> fst ` set ?g"
    using Cons.prems(2) by (auto simp: AList.dom_update)
  have vv: "(k, v') \<in> set g \<Longrightarrow> k = attr c \<Longrightarrow> v' = v" for k v'
    using Cons.prems(1) v by simp
  have "groups_loop attr (c # cards) g = groups_loop attr cards ?g"
    using v by (simp add: dict_getitem_def)
  also have "\<dots> = Inr (map (\<lambda>(k, v). (k, v @ filter (\<lambda>c. attr c = k) cards)) ?g)"
    using Cons.IH [OF d s] .
  also have "map (\<lambda>(k, v). (k, v @ filter (\<lambda>c. attr c = k) cards)) ?g =
             map (\<lambda>(k, v). (k, v @ filter (\<lambda>c. attr c = k) (c # cards))) g"
    unfolding g' using vv by (auto simp: )
  finally show ?case .
qed

lemma init_groups:
  "distinct (map fst d) \<Longrightarrow> (\<forall>p\<in>set d. snd p = []) \<Longrightarrow>
   distinct (map fst (fold (\<lambda>k d. AList.update k [] d) ks d)) \<and>
   fst ` set (fold (\<lambda>k d. AList.update k [] d) ks d) = set ks \<union> fst ` set d \<and>
   (\<forall>p\<in>set (fold (\<lambda>k d. AList.update k [] d) ks d). snd p = [])"
proof (induction ks arbitrary: d)
  case Nil
  then show ?case by simp
next
  case (Cons k ks)
  have 1: "distinct (map fst (AList.update k [] d))"
    using Cons.prems(1) by (rule AList.distinct_update)
  have "set (AList.update k [] d) \<subseteq> insert (k, []) (set d)"
    by (induction d) auto
  then have 2: "\<forall>p\<in>set (AList.update k [] d). snd p = []"
    using Cons.prems(2) by auto
  show ?case using Cons.IH [OF 1 2] by (auto simp: AList.dom_update)
qed

lemma init_groups_Nil:
  "distinct (map fst (fold (\<lambda>k d. AList.update k ([] :: Card list) d) (ks :: 'a list) [])) \<and>
   fst ` set (fold (\<lambda>k d. AList.update k ([] :: Card list) d) ks []) = set ks \<and>
   (\<forall>p\<in>set (fold (\<lambda>k d. AList.update k ([] :: Card list) d) ks []). snd p = [])"
  using init_groups [of "[] :: ('a \<times> Card list) list" ks] by simp

lemma group_keys_props: "distinct (group_keys ks) \<and> set (group_keys ks) = set ks"
  using init_groups_Nil [of ks] by (simp add: group_keys_def)

lemma groups_by_eq:
  "groups_loop attr hand (fold (\<lambda>k d. AList.update k [] d) (map attr hand) []) =
   Inr (map (\<lambda>k. (k, filter (\<lambda>c. attr c = k) hand)) (group_keys (map attr hand)))"
proof -
  let ?d = "fold (\<lambda>k d. AList.update k ([] :: Card list) d) (map attr hand) []"
  have i: "distinct (map fst ?d)" "fst ` set ?d = set (map attr hand)" "\<forall>p\<in>set ?d. snd p = []"
    using init_groups_Nil [of "map attr hand"] by simp_all
  have "groups_loop attr hand ?d =
        Inr (map (\<lambda>(k, v). (k, v @ filter (\<lambda>c. attr c = k) hand)) ?d)"
    using i(1,2) by (intro groups_loop_eq) auto
  also have "map (\<lambda>(k, v). (k, v @ filter (\<lambda>c. attr c = k) hand)) ?d =
             map (\<lambda>k. (k, filter (\<lambda>c. attr c = k) hand)) (map fst ?d)"
    using i(3) by (auto simp: )
  finally show ?thesis by (simp add: group_keys_def)
qed

lemma get_groups_by_face_eq:
  "get_groups_by_face hand =
   Inr (map (\<lambda>k. (k, filter (\<lambda>c. face c = k) hand)) (group_keys (get_faces hand)))"
  by (simp add: get_groups_by_face_def get_faces_def groups_by_eq)

lemma get_groups_by_suit_eq:
  "get_groups_by_suit hand =
   Inr (map (\<lambda>k. (k, filter (\<lambda>c. suit c = k) hand)) (group_keys (get_suits hand)))"
  by (simp add: get_groups_by_suit_def get_suits_def groups_by_eq)

lemma max_frequency_total:
  assumes "cards \<noteq> []"
  shows "\<exists>n. py_max (map (\<lambda>kv. length (snd kv))
            (map (\<lambda>k. (k, filter (\<lambda>c. attr c = k) cards)) (group_keys (map attr cards)))) = Inr n
          \<and> 1 \<le> n \<and> n \<le> length cards"
proof -
  let ?ls = "map (\<lambda>kv. length (snd kv))
            (map (\<lambda>k. (k, filter (\<lambda>c. attr c = k) cards)) (group_keys (map attr cards)))"
  have s: "set ?ls = (\<lambda>k. length (filter (\<lambda>c. attr c = k) cards)) ` attr ` set cards"
    using group_keys_props [of "map attr cards"] by (auto simp: image_iff)
  have ne: "?ls \<noteq> []" using assms s by (cases cards) auto
  then have m: "py_max ?ls = Inr (Max (set ?ls))" by (rule py_max_eq)
  have "Max (set ?ls) \<in> set ?ls" using ne by (intro Max_in) auto
  then obtain c where c: "c \<in> set cards"
      "Max (set ?ls) = length (filter (\<lambda>x. attr x = attr c) cards)"
    unfolding s by auto
  have "filter (\<lambda>x. attr x = attr c) cards \<noteq> []"
    using c(1) by (auto simp: filter_empty_conv)
  then have "1 \<le> Max (set ?ls)" unfolding c(2) by (cases "filter (\<lambda>x. attr x = attr c) cards") auto
  moreover have "Max (set ?ls) \<le> length cards" unfolding c(2) by simp
  ultimately show ?thesis using m by blast
qed

text \<open>
  Claim C7, as the code has it. For a non-empty collection of cards the sequence and
  frequency computations return a value: the most frequent starter of the faces (with
  the sequence length 5 and the invalid starters Jack, Queen, King of the rank catalog,
  and with any positive sequence length and no invalid starters), and the greatest face
  and suit frequency, which lies between 1 and the number of cards. For the empty
  collection each of the three raises ValueError, since \<open>max\<close> is applied to an
  empty sequence.
\<close>

theorem frequency_and_starter_nonempty:
  assumes "cards \<noteq> []"
  shows "(\<exists>s. get_most_frequent_starter_of_sequences_including_faces (get_faces cards) 5
              (Some INVALID_STRAIGHT_STARTERS) = Inr s) \<and>
         (\<forall>n. 0 < n \<longrightarrow> (\<exists>s. get_most_frequent_starter_of_sequences_including_faces
              (get_faces cards) n None = Inr s)) \<and>
         (\<exists>n. get_max_face_frequency cards = Inr n \<and> 1 \<le> n \<and> n \<le> length cards) \<and>
         (\<exists>n. get_max_suit_frequency cards = Inr n \<and> 1 \<le> n \<and> n \<le> length cards)"
proof -
  have f: "get_faces cards \<noteq> []" using assms by (simp add: get_faces_def)
  have 1: "\<exists>s. get_most_frequent_starter_of_sequences_including_faces (get_faces cards) 5
              (Some INVALID_STRAIGHT_STARTERS) = Inr s"
    using f by (rule most_frequent_starter_5_total)
  have 2: "\<forall>n. 0 < n \<longrightarrow> (\<exists>s. get_most_frequent_starter_of_sequences_including_faces
              (get_faces cards) n None = Inr s)"
    using f most_frequent_starter_None_total by blast
  have 3: "\<exists>n. get_max_face_frequency cards = Inr n \<and> 1 \<le> n \<and> n \<le> length cards"
    using max_frequency_total [OF assms, of face]
    by (simp add: get_max_face_frequency_def get_groups_by_face_eq get_faces_def)
  have 4: "\<exists>n. get_max_suit_frequency cards = Inr n \<and> 1 \<le> n \<and> n \<le> length cards"
    using max_frequency_total [OF assms, of suit]
    by (simp add: get_max_suit_frequency_def get_groups_by_suit_eq get_suits_def)
  show ?thesis using 1 2 3 4 by blast
qed

theorem empty_collection_raises:
  "get_most_frequent_starter_of_sequences_including_faces [] 5
     (Some INVALID_STRAIGHT_STARTERS) = Inl ValueError \<and>
   get_max_face_frequency [] = Inl ValueError \<and>
   get_max_suit_frequency [] = Inl ValueError"
  by (simp add: most_frequent_starter_Nil get_max_face_frequency_def get_max_suit_frequency_def
      get_groups_by_face_def get_groups_by_suit_def get_faces_def get_suits_def py_max_def)

theorem frequency_and_starter_nonempty_witness:
  "[\<lparr>face = KING, suit = SPADES\<rparr>, \<lparr>face = KING, suit = HEARTS\<rparr>] \<noteq> [] \<and>
   get_max_face_frequency [\<lparr>face = KING, suit = SPADES\<rparr>, \<lparr>face = KING, suit = HEARTS\<rparr>] = Inr 2 \<and>
   get_max_suit_frequency [\<lparr>face = KING, suit = SPADES\<rparr>, \<lparr>face = KING, suit = HEARTS\<rparr>] = Inr 1 \<and>
   get_most_frequent_starter_of_sequences_including_faces
     (get_faces [\<lparr>face = KING, suit = SPADES\<rparr>, \<lparr>face = KING, suit = HEARTS\<rparr>]) 5
     (Some INVALID_STRAIGHT_STARTERS) = Inr TEN"
  using frequency_and_starter_nonempty
    [of "[\<lparr>face = KING, suit = SPADES\<rparr>, \<lparr>face = KING, suit = HEARTS\<rparr>]"]
  by (simp add: get_max_face_frequency_def get_max_suit_frequency_def get_groups_by_face_def
      get_groups_by_suit_def get_faces_def get_suits_def py_max_def dict_getitem_def
      starter_eval)

section \<open>Classification\<close>

lemma get_rank_loop_find:
  "(\<forall>r\<in>set rs. \<exists>b. is_rank r h = Inr b) \<Longrightarrow>
   get_rank_loop rs h =
     Inr (case find (\<lambda>r. is_rank r h = Inr True) rs of Some r \<Rightarrow> r | None \<Rightarrow> NULL_RANK)"
proof (induction rs)
  case Nil
  show ?case by simp
next
  case (Cons r rs)
  then obtain b where b: "is_rank r h = Inr b" by auto
  show ?case using Cons b by (cases b) auto
qed

lemma sequence_validator_total:
  assumes "length cards = 5"
  shows "\<exists>b. create_sequence_validator (Some INVALID_STRAIGHT_STARTERS) cards = Inr b"
proof -
  have "get_faces cards \<noteq> []" using assms by (auto simp: get_faces_def)
  then obtain s where s: "get_most_frequent_starter_of_sequences_including_faces
      (get_faces cards) 5 (Some INVALID_STRAIGHT_STARTERS) = Inr s"
    using most_frequent_starter_5_total by blast
  obtain b where "sequence_loop 5 s (get_faces cards) = Inr b"
    using sequence_loop_total by blast
  then show ?thesis using s assms
    by (simp add: create_sequence_validator_def or_empty_def)
qed

lemma is_rank_loop_total:
  "(\<forall>v\<in>set vs. \<exists>b. v h = Inr b) \<Longrightarrow> \<exists>b. is_rank_loop vs h = Inr b"
proof (induction vs)
  case Nil
  show ?case by auto
next
  case (Cons v vs)
  then obtain b where "v h = Inr b" by auto
  then show ?case using Cons by (cases b) auto
qed

lemma is_rank_loop_length_guard:
  "is_rank_loop (create_length_validator n # vs) h =
     (if length h = n then is_rank_loop vs h else Inr False)"
  by (simp add: create_length_validator_def)

lemma validators_default:
  assumes "r \<in> set DEFAULT_RANKS"
  shows "\<exists>vs. validators r = create_length_validator 5 # vs \<and>
     set vs \<subseteq> {create_sequence_validator (Some INVALID_STRAIGHT_STARTERS),
               create_suit_frequency_validator [(REQUIRED_LENGTH, 1)],
               create_face_validator ROYAL_FACES,
               create_face_frequency_validator [(4, 1)],
               create_face_frequency_validator [(3, 1), (2, 1)],
               create_face_frequency_validator [(3, 1)],
               create_face_frequency_validator [(2, 2)],
               create_face_frequency_validator [(2, 1)]}"
  using assms unfolding DEFAULT_RANKS_def
  by (auto simp: validators_simps REQUIRED_LENGTH_def)

lemma is_rank_default_total:
  assumes "r \<in> set DEFAULT_RANKS"
  shows "\<exists>b. is_rank r h = Inr b"
proof -
  obtain vs where vs: "validators r = create_length_validator 5 # vs"
     "set vs \<subseteq> {create_sequence_validator (Some INVALID_STRAIGHT_STARTERS),
               create_suit_frequency_validator [(REQUIRED_LENGTH, 1)],
               create_face_validator ROYAL_FACES,
               create_face_frequency_validator [(4, 1)],
               create_face_frequency_validator [(3, 1), (2, 1)],
               create_face_frequency_validator [(3, 1)],
               create_face_frequency_validator [(2, 2)],
               create_face_frequency_validator [(2, 1)]}"
    using validators_default [OF assms] by blast
  show ?thesis
  proof (cases "length h = 5")
    case False
    then show ?thesis
      by (auto simp add: is_rank_def vs(1) is_rank_loop_length_guard simp del: is_rank_loop.simps)
  next
    case True
    have "\<forall>v\<in>set vs. \<exists>b. v h = Inr b"
    proof
      fix v assume "v \<in> set vs"
      then consider "v = create_sequence_validator (Some INVALID_STRAIGHT_STARTERS)"
        | "\<exists>fr. v = create_suit_frequency_validator fr"
        | "\<exists>fs. v = create_face_validator fs"
        | "\<exists>fr. v = create_face_frequency_validator fr"
        using vs(2) by blast
      then show "\<exists>b. v h = Inr b"
      proof cases
        case 1
        then show ?thesis using sequence_validator_total [OF True] by simp
      next
        case 2
        then show ?thesis by (auto simp: create_suit_frequency_validator_def)
      next
        case 3
        then show ?thesis by (auto simp: create_face_validator_def)
      next
        case 4
        then show ?thesis by (auto simp: create_face_frequency_validator_def)
      qed
    qed
    then have "\<exists>b. is_rank_loop vs h = Inr b" by (rule is_rank_loop_total)
    then show ?thesis using True
      by (simp add: is_rank_def vs(1) is_rank_loop_length_guard del: is_rank_loop.simps)
  qed
qed

lemma get_rank_default_eq:
  "get_rank h None =
     Inr (case find (\<lambda>r. is_rank r h = Inr True) DEFAULT_RANKS of
            Some r \<Rightarrow> r | None \<Rightarrow> NULL_RANK)"
  unfolding get_rank_def using is_rank_default_total
  by (simp add: get_rank_loop_find)

lemma is_rank_HIGH: "is_rank HIGH h = Inr (length h = 5)"
  by (simp add: is_rank_def validators_simps create_length_validator_def REQUIRED_LENGTH_def)

lemma default_ranks_descending:
  "map rank_value DEFAULT_RANKS = [10, 9, 8, 7, 6, 5, 4, 3, 2, 1]"
  by (simp add: DEFAULT_RANKS_def rank_value_simps)

text \<open>
  Claim C1. For every hand of five cards, \<open>get_rank\<close> with the default ranks
  returns a rank and does not raise. The rank is the first one, in the order of
  \<open>DEFAULT_RANKS\<close>, all of whose validators return True; that order is strictly
  descending in the value of the ranks. The rank is never the null rank: High Card, whose
  only validator is the length check, accepts the hand.
\<close>

theorem get_rank_default_first_match:
  assumes "length h = 5"
  shows "\<exists>r. get_rank h None = Inr r \<and>
           find (\<lambda>r. \<forall>v\<in>set (validators r). v h = Inr True) DEFAULT_RANKS = Some r \<and>
           r \<in> set DEFAULT_RANKS \<and>
           \<not> rank_eq r NULL_RANK \<and> rank_value r \<noteq> 0 \<and>
           sorted_wrt (>) (map rank_value DEFAULT_RANKS) \<and>
           validators HIGH = [create_length_validator 5] \<and>
           is_rank HIGH h = Inr True"
proof -
  let ?P = "\<lambda>r. is_rank r h = Inr True"
  have eqP: "(\<lambda>r. \<forall>v\<in>set (validators r). v h = Inr True) = ?P"
    by (simp add: is_rank_True_iff)
  have high: "is_rank HIGH h = Inr True" using assms by (simp add: is_rank_HIGH)
  have "HIGH \<in> set DEFAULT_RANKS" by (simp add: DEFAULT_RANKS_def)
  then have "find ?P DEFAULT_RANKS \<noteq> None" using high by (auto simp: find_None_iff)
  then obtain r where r: "find ?P DEFAULT_RANKS = Some r" by auto
  then have mem: "r \<in> set DEFAULT_RANKS" by (auto simp: find_Some_iff)
  then have "rank_value r \<in> set (map rank_value DEFAULT_RANKS)" by simp
  then have pos: "rank_value r \<noteq> 0" unfolding default_ranks_descending by auto
  have "get_rank h None = Inr r" using r by (simp add: get_rank_default_eq)
  then show ?thesis
    using r mem pos high
    by (simp add: eqP rank_eq_def rank_value_simps default_ranks_descending
        validators_simps REQUIRED_LENGTH_def)
qed
theorem get_rank_default_first_match_witness:
  "length [\<lparr>face = KING, suit = SPADES\<rparr>, \<lparr>face = KING, suit = HEARTS\<rparr>,
           \<lparr>face = TWO, suit = SPADES\<rparr>, \<lparr>face = FIVE, suit = CLOVERS\<rparr>,
           \<lparr>face = NINE, suit = SPADES\<rparr>] = 5 \<and>
   (\<exists>r. get_rank [\<lparr>face = KING, suit = SPADES\<rparr>, \<lparr>face = KING, suit = HEARTS\<rparr>,
           \<lparr>face = TWO, suit = SPADES\<rparr>, \<lparr>face = FIVE, suit = CLOVERS\<rparr>,
           \<lparr>face = NINE, suit = SPADES\<rparr>] None = Inr r \<and>
        rank_name r = ''Pair'' \<and> rank_value r = 2 \<and> \<not> rank_eq r NULL_RANK)"
proof -
  let ?h = "[\<lparr>face = KING, suit = SPADES\<rparr>, \<lparr>face = KING, suit = HEARTS\<rparr>,
           \<lparr>face = TWO, suit = SPADES\<rparr>, \<lparr>face = FIVE, suit = CLOVERS\<rparr>,
           \<lparr>face = NINE, suit = SPADES\<rparr>]"
  have len: "length ?h = 5" by simp
  have ev: "get_rank ?h None = Inr PAIR"
    by (simp add: get_rank_def DEFAULT_RANKS_def is_rank_def validators_simps validator_eval
        starter_eval)
  obtain r where r: "get_rank ?h None = Inr r" "\<not> rank_eq r NULL_RANK"
    using get_rank_default_first_match [OF len] by blast
  have "r = PAIR" using r(1) ev by simp
  then show ?thesis using r len by (simp add: PAIR_def Rank_init_def)
qed

section \<open>The tie-breaks refine their specification\<close>

lemma map_sort_key: "map f (sort_key f xs) = sort (map f xs)"
  by (rule properties_for_sort [symmetric]) simp_all

lemma insort_key_decorate:
  "insort_key fst (kf x, x) (map (\<lambda>y. (kf y, y)) ys) = map (\<lambda>y. (kf y, y)) (insort_key kf x ys)"
  by (induction ys) simp_all

lemma sort_key_decorate:
  "sort_key fst (map (\<lambda>y. (kf y, y)) xs) = map (\<lambda>y. (kf y, y)) (sort_key kf xs)"
  by (induction xs) (simp_all add: insort_key_decorate)

lemma py_sorted_decorate:
  "map snd (py_sorted fst r (zip (map kf xs) xs)) = py_sorted kf r xs"
proof -
  have z: "zip (map kf ys) ys = map (\<lambda>y. (kf y, y)) ys" for ys
    by (induction ys) simp_all
  have d: "map snd (sort_key fst (map (\<lambda>y. (kf y, y)) ys)) = sort_key kf ys" for ys
    by (simp add: sort_key_decorate comp_def)
  have "rev (map (\<lambda>y. (kf y, y)) xs) = map (\<lambda>y. (kf y, y)) (rev xs)"
    by (simp add: rev_map)
  then have "map snd (sort_key fst (rev (map (\<lambda>y. (kf y, y)) xs))) = sort_key kf (rev xs)"
    using d [of "rev xs"] by simp
  then show ?thesis
    using d [of xs] by (simp add: py_sorted_def z rev_map [symmetric])
qed

lemma map_py_sorted: "map f (py_sorted f True xs) = rev (sort (map f xs))"
proof -
  have "mset (map f (rev xs)) = mset (map f xs)" by simp
  then have "sort (map f (rev xs)) = sort (map f xs)"
    by (metis properties_for_sort sorted_sort mset_sort)
  then have "map f (sort_key f (rev xs)) = sort (map f xs)"
    by (simp add: map_sort_key rev_map)
  then show ?thesis by (simp add: py_sorted_def rev_map [symmetric])
qed

lemma sort_key_Nil_iff: "sort_key f xs = [] \<longleftrightarrow> xs = []"
  by (metis length_sort length_0_conv)

lemma map_res_eq: "(\<forall>x\<in>set xs. f x = Inr (g x)) \<Longrightarrow> map_res f xs = Inr (map g xs)"
  by (induction xs) simp_all

lemma py_first_in: "xs \<noteq> [] \<Longrightarrow> \<exists>y\<in>set xs. py_first xs = Inr y"
  by (cases xs) (simp_all add: py_first_def)

lemma group_key_eq:
  assumes "g \<noteq> []" and "\<forall>c\<in>set g. face c = k"
  shows "group_key (k, g) = Inr (length g, face_value k)"
proof -
  have "py_sorted card_value True g \<noteq> []"
    using assms(1) by (simp add: py_sorted_def sort_key_Nil_iff)
  then obtain y where y: "y \<in> set (py_sorted card_value True g)"
      "py_first (py_sorted card_value True g) = Inr y"
    using py_first_in by blast
  then have "y \<in> set g" by (simp add: py_sorted_def)
  then have "card_value y = face_value k" using assms(2) by (simp add: card_value_def)
  then show ?thesis using y(2) by (simp add: group_key_def)
qed

lemma count_list_map_filter: "count_list (map f xs) k = length (filter (\<lambda>x. f x = k) xs)"
  by (induction xs) simp_all

lemma group_items_eq:
  fixes hand :: "Card list"
  defines "G \<equiv> map (\<lambda>k. (k, filter (\<lambda>c. face c = k) hand)) (group_keys (get_faces hand))"
  shows "get_group_items_by_size_and_value G r =
           Inr (py_sorted (\<lambda>kv. (length (snd kv), face_value (fst kv))) r G)"
proof -
  let ?kf = "\<lambda>kv :: Face \<times> Card list. (length (snd kv), face_value (fst kv))"
  have "\<forall>x\<in>set G. group_key x = Inr (?kf x)"
  proof
    fix x assume "x \<in> set G"
    then obtain k where k: "k \<in> set (get_faces hand)" "x = (k, filter (\<lambda>c. face c = k) hand)"
      using group_keys_props [of "get_faces hand"] by (auto simp: G_def)
    have "filter (\<lambda>c. face c = k) hand \<noteq> []"
      using k(1) by (auto simp: get_faces_def filter_empty_conv)
    then show "group_key x = Inr (?kf x)"
      unfolding k(2) by (simp add: group_key_eq)
  qed
  then have "map_res group_key G = Inr (map ?kf G)" by (rule map_res_eq)
  then show ?thesis
    by (simp add: get_group_items_by_size_and_value_def py_sorted_decorate)
qed

lemma sort_mset_cong: "mset xs = mset ys \<Longrightarrow> sort xs = sort ys"
  by (rule properties_for_sort) simp_all

lemma face_groups_spec_eq:
  fixes hand :: "Card list"
  defines "G \<equiv> map (\<lambda>k. (k, filter (\<lambda>c. face c = k) hand)) (group_keys (get_faces hand))"
  shows "map (\<lambda>kv. (length (snd kv), face_value (fst kv)))
           (py_sorted (\<lambda>kv. (length (snd kv), face_value (fst kv))) True G) =
         face_groups_spec hand"
    and "length G = length (face_groups_spec hand)"
proof -
  let ?kf = "\<lambda>kv :: Face \<times> Card list. (length (snd kv), face_value (fst kv))"
  let ?kf' = "\<lambda>fc. (count_list (map face hand) fc, face_value fc)"
  let ?ks = "group_keys (get_faces hand)"
  have ks: "distinct ?ks" "set ?ks = set (remdups (map face hand))"
    using group_keys_props [of "get_faces hand"] by (simp_all add: get_faces_def)
  have m: "mset ?ks = mset (remdups (map face hand))"
    using set_eq_iff_mset_eq_distinct [of ?ks "remdups (map face hand)"] ks by simp
  have g: "map ?kf G = map ?kf' ?ks"
    unfolding G_def by (simp add: count_list_map_filter)
  have "mset (map ?kf' ?ks) = mset (map ?kf' (remdups (map face hand)))"
    by (simp only: mset_map m)
  then have "sort (map ?kf G) = sort (map ?kf' (remdups (map face hand)))"
    unfolding g by (rule sort_mset_cong)
  then show "map ?kf (py_sorted ?kf True G) = face_groups_spec hand"
    by (simp only: map_py_sorted face_groups_spec_def)
  have "size (mset ?ks) = size (mset (remdups (map face hand)))"
    by (simp only: m)
  then have "length G = length (remdups (map face hand))"
    by (simp add: G_def)
  then show "length G = length (face_groups_spec hand)"
    by (simp add: face_groups_spec_def)
qed

lemma compare_group_items_lex:
  "compare_group_items a b =
     (if (length (snd a), face_value (fst a)) > (length (snd b), face_value (fst b)) then GREATER
      else if (length (snd a), face_value (fst a)) < (length (snd b), face_value (fst b))
        then LESSER
      else EQUAL)"
  by (auto simp: compare_group_items_def Let_def less_prod_def)

lemma match_up_spec:
  "(case match_up_loop (zip xs ys) of Some r \<Rightarrow> r | None \<Rightarrow> tie) =
   first_difference_spec (map (\<lambda>kv. (length (snd kv), face_value (fst kv))) xs)
     (map (\<lambda>kv. (length (snd kv), face_value (fst kv))) ys) tie"
proof (induction xs arbitrary: ys)
  case Nil
  show ?case by simp
next
  case (Cons x xs)
  show ?case
  proof (cases ys)
    case Nil
    then show ?thesis by simp
  next
    case (Cons y ys')
    then show ?thesis using Cons.IH [of ys']
      by (simp add: compare_group_items_lex Let_def)
  qed
qed

lemma compare_by_face_frequency_eq:
  "compare_by_face_frequency A B =
     Inr (first_difference_spec (face_groups_spec A) (face_groups_spec B)
            (compare_counts_spec (length (face_groups_spec A)) (length (face_groups_spec B))))"
proof -
  let ?kf = "\<lambda>kv :: Face \<times> Card list. (length (snd kv), face_value (fst kv))"
  let ?G = "\<lambda>hand. map (\<lambda>k. (k, filter (\<lambda>c. face c = k) hand)) (group_keys (get_faces hand))"
  have "compare_by_face_frequency A B =
        Inr (case match_up_loop (zip (py_sorted ?kf True (?G A)) (py_sorted ?kf True (?G B))) of
               Some r \<Rightarrow> r | None \<Rightarrow> compare_length (?G A) (?G B))"
    by (simp add: compare_by_face_frequency_def get_groups_by_face_eq group_items_eq
        split: option.splits)
  also have "compare_length (?G A) (?G B) =
      compare_counts_spec (length (face_groups_spec A)) (length (face_groups_spec B))"
    by (simp only: compare_length_def compare_counts_spec_def face_groups_spec_eq(2))
  finally show ?thesis
    by (simp only: match_up_spec face_groups_spec_eq(1))
qed

section \<open>Comparison of hands\<close>

lemma value_loop_spec:
  "(case value_loop (zip xs ys) of Some r \<Rightarrow> r | None \<Rightarrow> tie) =
   first_difference_spec (map card_value xs) (map card_value ys) tie"
proof (induction xs arbitrary: ys)
  case Nil
  show ?case by simp
next
  case (Cons x xs)
  show ?case
  proof (cases ys)
    case Nil
    then show ?thesis by simp
  next
    case (Cons y ys')
    then show ?thesis using Cons.IH [of ys'] by simp
  qed
qed

lemma compare_by_value_eq:
  "compare_by_value A B =
     first_difference_spec (values_descending_spec A) (values_descending_spec B)
       (compare_counts_spec (length A) (length B))"
proof -
  have "compare_length A B = compare_counts_spec (length A) (length B)"
    by (simp add: compare_length_def compare_counts_spec_def)
  then show ?thesis
    by (simp only: compare_by_value_def Let_def value_loop_spec map_py_sorted
        values_descending_spec_def)
qed

lemma flip_flip [simp]: "flip_comparison (flip_comparison c) = c"
  by (cases c) simp_all

lemma compare_counts_flip: "compare_counts_spec n m = flip_comparison (compare_counts_spec m n)"
  by (simp add: compare_counts_spec_def)

lemma first_difference_Nil2 [simp]: "first_difference_spec xs [] tie = tie"
  by (cases xs) simp_all

lemma first_difference_flip:
  "first_difference_spec ys xs (flip_comparison tie) =
   flip_comparison (first_difference_spec xs ys tie)"
  by (induction xs ys tie rule: first_difference_spec.induct) auto

lemma compare_by_face_frequency_flip:
  "compare_by_face_frequency A B = Inr c \<Longrightarrow>
   compare_by_face_frequency B A = Inr (flip_comparison c)"
  using first_difference_flip [of "face_groups_spec B" "face_groups_spec A"
      "compare_counts_spec (length (face_groups_spec A)) (length (face_groups_spec B))"]
    compare_counts_flip [of "length (face_groups_spec B)" "length (face_groups_spec A)"]
  by (simp add: compare_by_face_frequency_eq)

lemma compare_by_value_flip:
  "compare_by_value B A = flip_comparison (compare_by_value A B)"
  using first_difference_flip [of "values_descending_spec B" "values_descending_spec A"
      "compare_counts_spec (length A) (length B)"]
    compare_counts_flip [of "length B" "length A"]
  by (simp add: compare_by_value_eq)

lemma compare_by_straight_starter_flip:
  assumes "A \<noteq> []" and "B \<noteq> []"
  shows "\<exists>c. compare_by_straight_starter A B = Inr c \<and>
             compare_by_straight_starter B A = Inr (flip_comparison c)"
proof -
  obtain a where a: "get_most_frequent_starter_of_sequences_including_faces (get_faces A) 5
      (Some INVALID_STRAIGHT_STARTERS) = Inr a"
    using most_frequent_starter_5_total [of "get_faces A"] assms(1) by (auto simp: get_faces_def)
  obtain b where b: "get_most_frequent_starter_of_sequences_including_faces (get_faces B) 5
      (Some INVALID_STRAIGHT_STARTERS) = Inr b"
    using most_frequent_starter_5_total [of "get_faces B"] assms(2) by (auto simp: get_faces_def)
  have "a \<noteq> b \<Longrightarrow> face_value a < face_value b \<or> face_value b < face_value a"
    using face_value_inj [of a b] by linarith
  then have "a \<noteq> b \<Longrightarrow> is_straight_starter_greater a b \<noteq> is_straight_starter_greater b a"
    by (auto simp: is_straight_starter_greater_def)
  then show ?thesis using a b
    by (auto simp: compare_by_straight_starter_def REQUIRED_LENGTH_def)
qed

lemma get_rank_total: "\<exists>r. get_rank h None = Inr r"
  by (simp add: get_rank_default_eq)

lemma rank_in_cong: "rank_eq r1 r2 \<Longrightarrow> rank_in r1 rs = rank_in r2 rs"
  by (simp add: rank_in_def rank_eq_def)

lemma compare_hands_flip:
  assumes "length A = 5" and "length B = 5"
  shows "\<exists>c. compare_hands A B = Inr c \<and> compare_hands B A = Inr (flip_comparison c)"
proof -
  obtain ra where ra: "get_rank A None = Inr ra" using get_rank_total by blast
  obtain rb where rb: "get_rank B None = Inr rb" using get_rank_total by blast
  have ne: "A \<noteq> []" "B \<noteq> []" using assms by auto
  consider "rank_value ra > rank_value rb" | "rank_value ra < rank_value rb"
    | "rank_value ra = rank_value rb" by linarith
  then show ?thesis
  proof cases
    case 1
    then show ?thesis using ra rb by (simp add: compare_hands_def rank_gt_def rank_lt_def)
  next
    case 2
    then show ?thesis using ra rb by (simp add: compare_hands_def rank_gt_def rank_lt_def)
  next
    case 3
    then have eq: "rank_in rb rs = rank_in ra rs" for rs
      by (simp add: rank_in_def rank_eq_def)
    show ?thesis
    proof (cases "rank_in ra FACE_FREQUENCY_RANKS")
      case True
      obtain c where c: "compare_by_face_frequency A B = Inr c"
        by (simp add: compare_by_face_frequency_eq)
      then show ?thesis using ra rb 3 True eq compare_by_face_frequency_flip [OF c]
        by (simp add: compare_hands_def rank_gt_def rank_lt_def)
    next
      case False
      show ?thesis
      proof (cases "rank_in ra SEQUENTIAL_RANKS")
        case True
        obtain c where "compare_by_straight_starter A B = Inr c"
          "compare_by_straight_starter B A = Inr (flip_comparison c)"
          using compare_by_straight_starter_flip [OF ne] by blast
        then show ?thesis using ra rb 3 True False eq
          by (simp add: compare_hands_def rank_gt_def rank_lt_def)
      next
        case F2: False
        show ?thesis using ra rb 3 False F2 eq compare_by_value_flip [of B A]
          by (simp add: compare_hands_def rank_gt_def rank_lt_def)
      qed
    qed
  qed
qed

text \<open>
  Claim C2. For all hands \<open>A\<close> and \<open>B\<close> of five cards, \<open>compare_hands A B\<close>
  and \<open>compare_hands B A\<close> return inverse answers, and neither raises: the first is
  GREATER exactly when the second is LESSER, EQUAL exactly when the second is EQUAL, and
  LESSER exactly when the second is GREATER.
\<close>

theorem compare_hands_inverse:
  assumes "length A = 5" and "length B = 5"
  shows "(compare_hands A B = Inr GREATER \<longleftrightarrow> compare_hands B A = Inr LESSER) \<and>
         (compare_hands A B = Inr EQUAL \<longleftrightarrow> compare_hands B A = Inr EQUAL) \<and>
         (compare_hands A B = Inr LESSER \<longleftrightarrow> compare_hands B A = Inr GREATER) \<and>
         (\<exists>c. compare_hands A B = Inr c)"
proof -
  obtain c where c: "compare_hands A B = Inr c" "compare_hands B A = Inr (flip_comparison c)"
    using compare_hands_flip [OF assms] by blast
  show ?thesis unfolding c by (cases c) simp_all
qed

section \<open>The most frequent starter depends on the set of faces only\<close>

text \<open>
  The model iterates over \<open>set(faces)\<close> and over the keys of the Counter in one
  fixed order; Python leaves the first unspecified. The result does not depend on it:
  two face lists with the same elements give the same starter, because the counts of the
  Counter are sums over the set of faces and the key of \<open>sorted_starters\<close> is
  injective.
\<close>

lemma fold_counter_get:
  "counter_get (fold (\<lambda>fc. counter_update (S fc)) fcs c) k =
   counter_get c k + sum_list (map (\<lambda>fc. count_list (S fc) k) fcs)"
  by (induction fcs arbitrary: c) (simp_all add: counter_get_update)

lemma fold_counter_keys:
  "fst ` set (fold (\<lambda>fc. counter_update (S fc)) fcs c) =
   (\<Union>fc\<in>set fcs. set (S fc)) \<union> fst ` set c"
  by (induction fcs arbitrary: c) (auto simp: counter_update_keys)

lemma fold_counter_distinct:
  "distinct (map fst c) \<Longrightarrow> distinct (map fst (fold (\<lambda>fc. counter_update (S fc)) fcs c))"
  by (induction fcs arbitrary: c) (simp_all add: counter_update_distinct)

lemma starters_counter_props:
  "\<exists>c. get_starters_of_sequences_including_faces fs n ivd = Inr c \<and>
       distinct (map fst c) \<and>
       fst ` set c = (\<Union>fc\<in>set fs. set (starters_of fc n ivd)) \<and>
       (\<forall>k. counter_get c k = (\<Sum>fc\<in>set fs. count_list (starters_of fc n ivd) k))"
proof -
  let ?c = "fold (\<lambda>fc. counter_update (starters_of fc n ivd)) (remdups fs) []"
  have 1: "get_starters_of_sequences_including_faces fs n ivd = Inr ?c"
    by (simp add: get_starters_of_sequences_including_faces_def faces_loop_eq)
  have 2: "distinct (map fst ?c)" by (rule fold_counter_distinct) simp
  have 3: "fst ` set ?c = (\<Union>fc\<in>set fs. set (starters_of fc n ivd))"
    by (simp add: fold_counter_keys)
  have 4: "counter_get ?c k = (\<Sum>fc\<in>set fs. count_list (starters_of fc n ivd) k)" for k
    by (simp add: fold_counter_get counter_get_simps sum_list_distinct_conv_sum_set)
  show ?thesis using 1 2 3 4 by blast
qed

lemma counter_values:
  assumes "distinct (map fst c)"
  shows "set (map snd c) = counter_get c ` set (map fst c)"
proof -
  have "snd p = counter_get c (fst p)" if "p \<in> set c" for p
    using counter_get_in_values [OF assms, of "fst p" "snd p"] that by simp
  then show ?thesis by (auto simp: image_iff)
qed

lemma starter_key_inj: "inj starter_key"
proof (rule injI)
  fix a b assume "starter_key a = starter_key b"
  then show "a = b"
    using face_value_range [of a] face_value_range [of b] face_value_inj [of a b]
    by (auto simp: starter_key_def MIN_VALUE_eq split: if_splits)
qed

lemma most_frequent_rest_cong:
  assumes "distinct (map fst c)" and "distinct (map fst d)"
    and "set (map fst c) = set (map fst d)"
    and "\<forall>k. counter_get c k = counter_get d k"
  shows "bind_res (py_max (map snd c))
           (\<lambda>m. get_max_straight_starter (filter (\<lambda>fc. counter_get c fc = m) (map fst c))) =
         bind_res (py_max (map snd d))
           (\<lambda>m. get_max_straight_starter (filter (\<lambda>fc. counter_get d fc = m) (map fst d)))"
proof (cases "c = []")
  case True
  then have "d = []" using assms(3) by auto
  then show ?thesis using True by (simp add: py_max_Nil)
next
  case False
  then have dne: "d \<noteq> []" using assms(3) by auto
  have cg: "counter_get c = counter_get d" using assms(4) by auto
  have vals: "set (map snd c) = set (map snd d)"
    by (simp only: counter_values [OF assms(1)] counter_values [OF assms(2)] assms(3) cg)
  define m where "m = Max (set (map snd c))"
  have pc: "py_max (map snd c) = Inr m" using False by (simp add: py_max_eq m_def)
  have pd: "py_max (map snd d) = Inr m" using dne vals by (simp add: py_max_eq m_def)
  let ?F = "filter (\<lambda>fc. counter_get d fc = m) (map fst c)"
  let ?F' = "filter (\<lambda>fc. counter_get d fc = m) (map fst d)"
  have "distinct ?F" "distinct ?F'" "set ?F = set ?F'"
    using assms(1,2,3) by auto
  then have "mset ?F = mset (sort_key starter_key ?F')"
    using set_eq_iff_mset_eq_distinct [of ?F ?F'] by simp
  moreover have "inj_on starter_key (set ?F)"
    using starter_key_inj by (rule inj_on_subset) simp
  moreover have "sorted (map starter_key (sort_key starter_key ?F'))" by simp
  ultimately have "sort_key starter_key ?F = sort_key starter_key ?F'"
    by (rule sort_key_inj_key_eq)
  then show ?thesis using pc pd
    by (simp add: cg get_max_straight_starter_def sorted_starters_def py_sorted_def)
qed

lemma most_frequent_starter_set_cong:
  assumes "set fs = set fs'"
  shows "get_most_frequent_starter_of_sequences_including_faces fs n ivd =
         get_most_frequent_starter_of_sequences_including_faces fs' n ivd"
proof -
  obtain c where c: "get_starters_of_sequences_including_faces fs n ivd = Inr c"
      "distinct (map fst c)"
      "fst ` set c = (\<Union>fc\<in>set fs. set (starters_of fc n ivd))"
      "\<forall>k. counter_get c k = (\<Sum>fc\<in>set fs. count_list (starters_of fc n ivd) k)"
    using starters_counter_props [of fs n ivd] by blast
  obtain d where d: "get_starters_of_sequences_including_faces fs' n ivd = Inr d"
      "distinct (map fst d)"
      "fst ` set d = (\<Union>fc\<in>set fs'. set (starters_of fc n ivd))"
      "\<forall>k. counter_get d k = (\<Sum>fc\<in>set fs'. count_list (starters_of fc n ivd) k)"
    using starters_counter_props [of fs' n ivd] by blast
  have 3: "set (map fst c) = set (map fst d)" using c(3) d(3) assms by simp
  have 4: "\<forall>k. counter_get c k = counter_get d k" using c(4) d(4) assms by simp
  show ?thesis
    using most_frequent_rest_cong [OF c(2) d(2) 3 4] c(1) d(1)
    by (simp add: get_most_frequent_starter_of_sequences_including_faces_def)
qed

section \<open>The examples of the specification\<close>

lemmas rank_eval =
  get_rank_def DEFAULT_RANKS_def is_rank_def validators_simps validator_eval starter_eval

lemmas dispatch_eval =
  compare_hands_def rank_gt_def rank_lt_def rank_in_def rank_eq_def FACE_FREQUENCY_RANKS_def
  SEQUENTIAL_RANKS_def rank_value_simps

lemma example_ranks:
  "get_rank full_house_kings None = Inr FULL_HOUSE"
  "get_rank full_house_queens None = Inr FULL_HOUSE"
  "get_rank two_pair_kings None = Inr TWO_PAIR"
  "get_rank two_pair_queens None = Inr TWO_PAIR"
  "get_rank flush_spades None = Inr FLUSH"
  "get_rank flush_hearts None = Inr FLUSH"
  by (simp_all add: full_house_kings_def full_house_queens_def two_pair_kings_def
      two_pair_queens_def flush_spades_def flush_hearts_def rank_eval)

lemma example_face_groups:
  "face_groups_spec full_house_kings = [(3, 13), (2, 2)]"
  "face_groups_spec full_house_queens = [(3, 12), (2, 14)]"
  "face_groups_spec two_pair_kings = [(2, 14), (2, 13), (1, 2)]"
  "face_groups_spec two_pair_queens = [(2, 14), (2, 12), (1, 9)]"
  by (simp_all add: full_house_kings_def full_house_queens_def two_pair_kings_def
      two_pair_queens_def face_groups_spec_def less_eq_prod_def)

lemma example_values:
  "values_descending_spec flush_spades = [13, 9, 7, 5, 2]"
  "values_descending_spec flush_hearts = [13, 9, 7, 5, 3]"
  by (simp_all add: flush_spades_def flush_hearts_def values_descending_spec_def card_value_def)

lemma example_lengths:
  "length full_house_kings = 5" "length full_house_queens = 5"
  "length two_pair_kings = 5" "length two_pair_queens = 5"
  "length flush_spades = 5" "length flush_hearts = 5"
  by (simp_all add: full_house_kings_def full_house_queens_def two_pair_kings_def
      two_pair_queens_def flush_spades_def flush_hearts_def)

theorem compare_hands_inverse_witness:
  "length full_house_kings = 5 \<and> length full_house_queens = 5 \<and>
   compare_hands full_house_kings full_house_queens = Inr GREATER \<and>
   compare_hands full_house_queens full_house_kings = Inr LESSER"
proof -
  have "compare_hands full_house_kings full_house_queens = Inr GREATER"
    by (simp add: dispatch_eval example_ranks compare_by_face_frequency_eq example_face_groups
        less_prod_def)
  then show ?thesis
    using compare_hands_inverse [of full_house_kings full_house_queens]
    by (simp add: example_lengths)
qed

text \<open>
  Claim C4. When two hands of five cards classify as the same rank of the frequency
  category (High Card, Pair, Two Pair, Three of a Kind, Full House, Four of a Kind),
  \<open>compare_hands\<close> compares their face groups pairwise, each hand's groups taken in
  descending order of (group size, face value): the first pair that differs decides, and
  when all compared pairs are equal the result is the comparison of the numbers of groups
  of the two hands. In particular the full house K,K,K,2,2 is GREATER than the full house
  Q,Q,Q,A,A.
\<close>

theorem compare_same_frequency_rank:
  assumes "length A = 5" and "length B = 5"
    and "get_rank A None = Inr ra" and "get_rank B None = Inr rb"
    and "rank_eq ra rb" and "rank_in ra FACE_FREQUENCY_RANKS"
  shows "compare_hands A B =
           Inr (first_difference_spec (face_groups_spec A) (face_groups_spec B)
                  (compare_counts_spec (length (face_groups_spec A))
                     (length (face_groups_spec B)))) \<and>
         compare_hands full_house_kings full_house_queens = Inr GREATER"
proof -
  have "compare_hands A B = compare_by_face_frequency A B"
    using assms(3-6) by (simp add: compare_hands_def rank_eq_def rank_gt_def rank_lt_def)
  moreover have "compare_hands full_house_kings full_house_queens = Inr GREATER"
    by (simp add: dispatch_eval example_ranks compare_by_face_frequency_eq example_face_groups
        less_prod_def)
  ultimately show ?thesis by (simp add: compare_by_face_frequency_eq)
qed

theorem compare_same_frequency_rank_witness:
  "length two_pair_kings = 5 \<and> length two_pair_queens = 5 \<and>
   get_rank two_pair_kings None = Inr TWO_PAIR \<and>
   get_rank two_pair_queens None = Inr TWO_PAIR \<and>
   rank_eq TWO_PAIR TWO_PAIR \<and> rank_in TWO_PAIR FACE_FREQUENCY_RANKS \<and>
   face_groups_spec two_pair_kings = [(2, 14), (2, 13), (1, 2)] \<and>
   face_groups_spec two_pair_queens = [(2, 14), (2, 12), (1, 9)] \<and>
   compare_hands two_pair_kings two_pair_queens = Inr GREATER"
proof -
  have r: "rank_eq TWO_PAIR TWO_PAIR" "rank_in TWO_PAIR FACE_FREQUENCY_RANKS"
    by (simp_all add: rank_eq_def rank_in_def FACE_FREQUENCY_RANKS_def)
  show ?thesis
    using compare_same_frequency_rank [OF example_lengths(3) example_lengths(4)
        example_ranks(3) example_ranks(4) r]
    by (simp add: r example_lengths example_ranks example_face_groups less_prod_def)
qed

text \<open>
  Claim C5. When two hands of five cards both classify as Flush, \<open>compare_hands\<close>
  sorts the card values of each hand in descending order and compares them pairwise: the
  first position that differs decides, and when no position differs the result is EQUAL.
  In particular 2,5,7,9,K of spades against 3,5,7,9,K of hearts is LESSER.
\<close>

theorem compare_flushes:
  assumes "length A = 5" and "length B = 5"
    and "get_rank A None = Inr ra" and "get_rank B None = Inr rb"
    and "rank_eq ra FLUSH" and "rank_eq rb FLUSH"
  shows "compare_hands A B =
           Inr (first_difference_spec (values_descending_spec A) (values_descending_spec B)
                  EQUAL) \<and>
         compare_hands flush_spades flush_hearts = Inr LESSER"
proof -
  have "compare_hands A B = Inr (compare_by_value A B)"
    using assms(3-6) by (simp add: dispatch_eval)
  moreover have "compare_counts_spec (length A) (length B) = EQUAL"
    using assms(1,2) by (simp add: compare_counts_spec_def)
  moreover have "compare_hands flush_spades flush_hearts = Inr LESSER"
    by (simp add: dispatch_eval example_ranks compare_by_value_eq example_values)
  ultimately show ?thesis by (simp add: compare_by_value_eq)
qed

theorem compare_flushes_witness:
  "length flush_hearts = 5 \<and> length flush_spades = 5 \<and>
   get_rank flush_hearts None = Inr FLUSH \<and> get_rank flush_spades None = Inr FLUSH \<and>
   rank_eq FLUSH FLUSH \<and>
   values_descending_spec flush_hearts = [13, 9, 7, 5, 3] \<and>
   values_descending_spec flush_spades = [13, 9, 7, 5, 2] \<and>
   compare_hands flush_hearts flush_spades = Inr GREATER"
proof -
  have r: "rank_eq FLUSH FLUSH" by (simp add: rank_eq_def)
  show ?thesis
    using compare_flushes [OF example_lengths(6) example_lengths(5)
        example_ranks(6) example_ranks(5) r r]
    by (simp add: r example_lengths example_ranks example_values)
qed

section \<open>Required groups and the ace-low straight\<close>

lemma fold_count_eq:
  "fold (\<lambda>frequency n. if frequency = g then n + 1 else n) vs (a::nat) =
   a + length (filter (\<lambda>v. v = g) vs)"
  by (induction vs arbitrary: a) simp_all

lemma counter_of_list:
  "distinct (map fst (counter_update xs [])) \<and>
   fst ` set (counter_update xs []) = set xs \<and>
   (\<forall>k. counter_get (counter_update xs []) k = count_list xs k)"
  using counter_update_distinct [of "[]" xs] counter_update_keys [of xs "[]"]
  by (simp add: counter_get_update counter_get_simps)

lemma has_required_group_iff:
  "has_required_group xs g n \<longleftrightarrow> card {x \<in> set xs. count_list xs x = g} = n"
proof -
  let ?c = "counter_update xs []"
  have c: "distinct (map fst ?c)" "fst ` set ?c = set xs"
      "\<And>k. counter_get ?c k = count_list xs k"
    using counter_of_list [of xs] by auto
  have sn: "snd p = count_list xs (fst p)" if "p \<in> set ?c" for p
    using counter_get_in_values [OF c(1), of "fst p" "snd p"] that c(3) by simp
  have "length (filter (\<lambda>v. v = g) (map snd ?c)) =
        length (filter (\<lambda>k. count_list xs k = g) (map fst ?c))"
    using sn by (simp add: filter_map comp_def cong: filter_cong)
  also have "\<dots> = card (set (filter (\<lambda>k. count_list xs k = g) (map fst ?c)))"
  proof -
    have "distinct (filter (\<lambda>k. count_list xs k = g) (map fst ?c))"
      using c(1) by (rule distinct_filter)
    then show ?thesis by (rule distinct_card [symmetric])
  qed
  also have "set (filter (\<lambda>k. count_list xs k = g) (map fst ?c)) =
             {x \<in> set xs. count_list xs x = g}"
    using c(2) by auto
  finally show ?thesis
    by (simp add: has_required_group_def Let_def fold_count_eq)
qed

lemma count_list_full: "count_list xs x = length xs \<Longrightarrow> y \<in> set xs \<Longrightarrow> y = x"
proof (induction xs)
  case Nil
  then show ?case by simp
next
  case (Cons a xs)
  have le: "count_list xs x \<le> length xs" by (rule count_le_length)
  show ?case using Cons le by (auto split: if_splits)
qed

lemma distinct_count_list: "distinct xs \<Longrightarrow> x \<in> set xs \<Longrightarrow> count_list xs x = 1"
  by (induction xs) auto

lemma no_required_group:
  assumes "\<forall>x\<in>set xs. count_list xs x \<noteq> g"
  shows "\<not> has_required_group xs g (Suc n)"
proof -
  have e: "{x \<in> set xs. count_list xs x = g} = {}" using assms by auto
  show ?thesis unfolding has_required_group_iff e by simp
qed

lemma mixed_suits_no_flush:
  assumes "length h = 5" and "\<exists>c1\<in>set h. \<exists>c2\<in>set h. suit c1 \<noteq> suit c2"
  shows "create_suit_frequency_validator [(REQUIRED_LENGTH, 1)] h = Inr False"
proof -
  have "\<forall>x\<in>set (get_suits h). count_list (get_suits h) x \<noteq> 5"
  proof (rule ccontr)
    assume "\<not> (\<forall>x\<in>set (get_suits h). count_list (get_suits h) x \<noteq> 5)"
    then obtain s where "count_list (get_suits h) s = length (get_suits h)"
      using assms(1) by (auto simp: get_suits_def)
    then have "\<forall>y\<in>set (get_suits h). y = s" using count_list_full by metis
    then show False using assms(2) by (auto simp: get_suits_def)
  qed
  then have "\<not> has_required_group (get_suits h) 5 (Suc 0)" by (rule no_required_group)
  then show ?thesis
    by (simp add: create_suit_frequency_validator_def REQUIRED_LENGTH_def)
qed

lemma distinct_faces_no_groups:
  assumes "distinct (get_faces h)" and "1 < g"
  shows "\<not> has_required_group (get_faces h) g (Suc n)"
proof -
  have "\<forall>x\<in>set (get_faces h). count_list (get_faces h) x \<noteq> g"
    using assms distinct_count_list [OF assms(1)] by auto
  then show ?thesis by (rule no_required_group)
qed

lemma starters_of_examples:
  "get_most_frequent_starter_of_sequences_including_faces [ACE, TWO, THREE, FOUR, FIVE] 5
     (Some INVALID_STRAIGHT_STARTERS) = Inr ACE"
  "get_most_frequent_starter_of_sequences_including_faces [TWO, THREE, FOUR, FIVE, SIX] 5
     (Some INVALID_STRAIGHT_STARTERS) = Inr TWO"
  "get_most_frequent_starter_of_sequences_including_faces [TEN, JACK, QUEEN, KING, ACE] 5
     (Some INVALID_STRAIGHT_STARTERS) = Inr TEN"
  by (simp_all add: starter_eval)

text \<open>
  Claim C3. A hand of five cards whose faces are A, 2, 3, 4, 5 (in any order) and whose
  suits are not all equal classifies as Straight under the default ranks. Its most
  frequent sequence starter is Ace; the starter of a hand with the faces 2, 3, 4, 5, 6 is
  Two, and the starter of a hand with the faces 10, J, Q, K, A is Ten. Ace has strictly
  lesser starter precedence than Two, and Two strictly lesser than Ten.
\<close>

theorem ace_low_straight_lowest:
  assumes "length h = 5"
    and "set (get_faces h) = {ACE, TWO, THREE, FOUR, FIVE}"
    and "\<exists>c1\<in>set h. \<exists>c2\<in>set h. suit c1 \<noteq> suit c2"
    and "set (get_faces h2) = {TWO, THREE, FOUR, FIVE, SIX}"
    and "set (get_faces h3) = {TEN, JACK, QUEEN, KING, ACE}"
  shows "get_rank h None = Inr STRAIGHT \<and>
         get_most_frequent_starter_of_sequences_including_faces (get_faces h) 5
           (Some INVALID_STRAIGHT_STARTERS) = Inr ACE \<and>
         get_most_frequent_starter_of_sequences_including_faces (get_faces h2) 5
           (Some INVALID_STRAIGHT_STARTERS) = Inr TWO \<and>
         get_most_frequent_starter_of_sequences_including_faces (get_faces h3) 5
           (Some INVALID_STRAIGHT_STARTERS) = Inr TEN \<and>
         is_straight_starter_lesser ACE TWO \<and> is_straight_starter_lesser TWO TEN \<and>
         sorted_starters [TEN, ACE, TWO] False = [ACE, TWO, TEN]"
proof -
  have s1: "get_most_frequent_starter_of_sequences_including_faces (get_faces h) 5
           (Some INVALID_STRAIGHT_STARTERS) = Inr ACE"
  proof -
    have "set (get_faces h) = set [ACE, TWO, THREE, FOUR, FIVE]" using assms(2) by simp
    then have "get_most_frequent_starter_of_sequences_including_faces (get_faces h) 5
           (Some INVALID_STRAIGHT_STARTERS) =
        get_most_frequent_starter_of_sequences_including_faces [ACE, TWO, THREE, FOUR, FIVE] 5
           (Some INVALID_STRAIGHT_STARTERS)"
      by (rule most_frequent_starter_set_cong)
    then show ?thesis by (simp only: starters_of_examples)
  qed
  have s2: "get_most_frequent_starter_of_sequences_including_faces (get_faces h2) 5
           (Some INVALID_STRAIGHT_STARTERS) = Inr TWO"
  proof -
    have "set (get_faces h2) = set [TWO, THREE, FOUR, FIVE, SIX]" using assms(4) by simp
    then have "get_most_frequent_starter_of_sequences_including_faces (get_faces h2) 5
           (Some INVALID_STRAIGHT_STARTERS) =
        get_most_frequent_starter_of_sequences_including_faces [TWO, THREE, FOUR, FIVE, SIX] 5
           (Some INVALID_STRAIGHT_STARTERS)"
      by (rule most_frequent_starter_set_cong)
    then show ?thesis by (simp only: starters_of_examples)
  qed
  have s3: "get_most_frequent_starter_of_sequences_including_faces (get_faces h3) 5
           (Some INVALID_STRAIGHT_STARTERS) = Inr TEN"
  proof -
    have "set (get_faces h3) = set [TEN, JACK, QUEEN, KING, ACE]" using assms(5) by simp
    then have "get_most_frequent_starter_of_sequences_including_faces (get_faces h3) 5
           (Some INVALID_STRAIGHT_STARTERS) =
        get_most_frequent_starter_of_sequences_including_faces [TEN, JACK, QUEEN, KING, ACE] 5
           (Some INVALID_STRAIGHT_STARTERS)"
      by (rule most_frequent_starter_set_cong)
    then show ?thesis by (simp only: starters_of_examples)
  qed
  have "sequence_loop 5 ACE (get_faces h) = Inr True"
    by (simp add: eval_nat_numeral get_next_face_simps assms(2))
  then have seq: "create_sequence_validator (Some INVALID_STRAIGHT_STARTERS) h = Inr True"
    using assms(1) s1 by (simp add: create_sequence_validator_def or_empty_def)
  have suit: "create_suit_frequency_validator [(REQUIRED_LENGTH, 1)] h = Inr False"
    using assms(1,3) by (rule mixed_suits_no_flush)
  have "card (set (get_faces h)) = length (get_faces h)"
    using assms(1) by (simp add: assms(2)) (simp add: get_faces_def)
  then have d: "distinct (get_faces h)" by (rule card_distinct)
  have four: "create_face_frequency_validator [(4, 1)] h = Inr False"
    using distinct_faces_no_groups [OF d, of 4 0]
    by (simp add: create_face_frequency_validator_def)
  have full: "create_face_frequency_validator [(3, 1), (2, 1)] h = Inr False"
    using distinct_faces_no_groups [OF d, of 3 0]
    by (simp add: create_face_frequency_validator_def)
  have len: "create_length_validator REQUIRED_LENGTH h = Inr True"
    using assms(1) by (simp add: create_length_validator_def REQUIRED_LENGTH_def)
  have "get_rank h None = Inr STRAIGHT"
    by (simp add: get_rank_def DEFAULT_RANKS_def is_rank_def validators_simps
        len seq suit four full del: One_nat_def)
  moreover have "is_straight_starter_lesser ACE TWO" "is_straight_starter_lesser TWO TEN"
    by (simp_all add: is_straight_starter_lesser_def)
  moreover have "sorted_starters [TEN, ACE, TWO] False = [ACE, TWO, TEN]"
    by (simp add: sorted_starters_def py_sorted_def starter_key_def MIN_VALUE_eq)
  ultimately show ?thesis using s1 s2 s3 by simp
qed

theorem ace_low_straight_lowest_witness:
  "length ace_low_straight = 5 \<and>
   set (get_faces ace_low_straight) = {ACE, TWO, THREE, FOUR, FIVE} \<and>
   suit (ace_low_straight ! 0) \<noteq> suit (ace_low_straight ! 1) \<and>
   set (get_faces six_high_straight) = {TWO, THREE, FOUR, FIVE, SIX} \<and>
   set (get_faces ace_high_straight) = {TEN, JACK, QUEEN, KING, ACE} \<and>
   get_rank ace_low_straight None = Inr STRAIGHT \<and>
   get_most_frequent_starter_of_sequences_including_faces (get_faces ace_low_straight) 5
     (Some INVALID_STRAIGHT_STARTERS) = Inr ACE \<and>
   get_most_frequent_starter_of_sequences_including_faces (get_faces six_high_straight) 5
     (Some INVALID_STRAIGHT_STARTERS) = Inr TWO \<and>
   get_most_frequent_starter_of_sequences_including_faces (get_faces ace_high_straight) 5
     (Some INVALID_STRAIGHT_STARTERS) = Inr TEN"
proof -
  have 1: "length ace_low_straight = 5" by (simp add: ace_low_straight_def)
  have 2: "set (get_faces ace_low_straight) = {ACE, TWO, THREE, FOUR, FIVE}"
    by (simp add: ace_low_straight_def get_faces_def)
  have 3: "\<exists>c1\<in>set ace_low_straight. \<exists>c2\<in>set ace_low_straight. suit c1 \<noteq> suit c2"
    by (auto simp: ace_low_straight_def)
  have 4: "set (get_faces six_high_straight) = {TWO, THREE, FOUR, FIVE, SIX}"
    by (simp add: six_high_straight_def get_faces_def)
  have 5: "set (get_faces ace_high_straight) = {TEN, JACK, QUEEN, KING, ACE}"
    by (simp add: ace_high_straight_def get_faces_def)
  have 6: "suit (ace_low_straight ! 0) \<noteq> suit (ace_low_straight ! 1)"
    by (simp add: ace_low_straight_def)
  show ?thesis
    using ace_low_straight_lowest [OF 1 2 3 4 5] 1 2 4 5 6 by simp
qed

end
